theory Spec2Isabelle
  imports Main "HOL-Library.Word"
begin

unbundle bit_operations_syntax

section \<open>Network interfaces of a sandbox: \<^verbatim>\<open>libnetwork/osl/interface_linux.go\<close>\<close>

text \<open>
  The file manages the network devices of one network namespace: \<^verbatim>\<open>AddInterface\<close> places a
  device in the namespace, configures it and registers it; \<^verbatim>\<open>Remove\<close> hands it back;
  \<^verbatim>\<open>Statistics\<close> reads its counters. Everything the code does to the kernel goes through
  netlink calls. The model keeps the calls in a trace, and takes the kernel's answers from
  a parameter that may depend on every call made so far; so a theorem that holds for every
  such parameter holds whatever the kernel answers.

  Go's \<^verbatim>\<open>error\<close> result is an \<open>error option\<close> (\<open>None\<close> is \<^verbatim>\<open>nil\<close>), a result
  \<^verbatim>\<open>(v, error)\<close> is a sum with \<open>Inl\<close> for the error. The mutex of the namespace is not
  modelled: the model runs one operation at a time.
\<close>

subsection \<open>Addresses: \<^verbatim>\<open>net.IPNet\<close> of the Go standard library\<close>

type_synonym byte = "8 word"

text \<open>An \<^verbatim>\<open>IPNet\<close> holds an address and a mask, both byte slices (4 or 16 bytes when
  well formed; a \<^verbatim>\<open>nil\<close> slice is the empty list).\<close>

record IPNet =
  IP :: "byte list"
  Mask :: "byte list"

text \<open>\<^verbatim>\<open>IP.To4\<close>: the 4-byte form of an IPv4 address (also of an IPv4-mapped 16-byte
  one), \<^verbatim>\<open>nil\<close> otherwise.\<close>

definition To4 :: "byte list \<Rightarrow> byte list option" where
  "To4 ip =
     (if length ip = 4 then Some ip
      else if length ip = 16 \<and> list_all (\<lambda>b. b = 0) (take 10 ip)
              \<and> ip ! 10 = 0xff \<and> ip ! 11 = 0xff
      then Some (drop 12 ip)
      else None)"

text \<open>\<^verbatim>\<open>networkNumberAndMask\<close>: the address and mask brought to one length;
  \<^verbatim>\<open>(nil, nil)\<close> when the network is malformed.\<close>

definition networkNumberAndMask :: "IPNet \<Rightarrow> byte list \<times> byte list" where
  "networkNumberAndMask n =
     (case (case To4 (IP n) of
              Some x \<Rightarrow> Some x
            | None \<Rightarrow> if length (IP n) \<noteq> 16 then None else Some (IP n)) of
        None \<Rightarrow> ([], [])
      | Some ip \<Rightarrow>
          if length (Mask n) = 4 then (if length ip \<noteq> 4 then ([], []) else (ip, Mask n))
          else if length (Mask n) = 16
          then (if length ip = 4 then (ip, drop 12 (Mask n)) else (ip, Mask n))
          else ([], []))"

text \<open>\<^verbatim>\<open>(*IPNet).Contains\<close>: the address agrees with the network number on every bit of
  the mask.\<close>

definition Contains :: "IPNet \<Rightarrow> byte list \<Rightarrow> bool" where
  "Contains n ip0 =
     (case networkNumberAndMask n of
        (nn, m) \<Rightarrow>
          (let ip = (case To4 ip0 of Some x \<Rightarrow> x | None \<Rightarrow> ip0) in
           if length ip \<noteq> length nn then False
           else list_all (\<lambda>k. (nn ! k) AND (m ! k) = (ip ! k) AND (m ! k)) [0..<length ip]))"

subsection \<open>What netlink exchanges\<close>

text \<open>The statistics of a link (\<^verbatim>\<open>netlink.LinkStatistics\<close>, the counters the code reads)
  and of an interface (\<^verbatim>\<open>types.InterfaceStatistics\<close>, the counters the code fills); all
  \<^verbatim>\<open>uint64\<close>.\<close>

record LinkStatistics =
  nl_RxBytes :: "64 word"
  nl_TxBytes :: "64 word"
  nl_RxPackets :: "64 word"
  nl_TxPackets :: "64 word"
  nl_RxDropped :: "64 word"
  nl_TxDropped :: "64 word"

record InterfaceStatistics =
  RxBytes :: "64 word"
  TxBytes :: "64 word"
  RxPackets :: "64 word"
  TxPackets :: "64 word"
  RxDropped :: "64 word"
  TxDropped :: "64 word"

text \<open>A \<^verbatim>\<open>netlink.Link\<close>, by the attributes the code reads from \<^verbatim>\<open>Attrs()\<close>.\<close>

record Link =
  attrs_Name :: string
  attrs_Index :: int
  attrs_Statistics :: "LinkStatistics option"

record Addr =
  addr_IPNet :: "IPNet option"
  addr_Label :: string
  addr_Flags :: int

record Route =
  Scope :: int
  LinkIndex :: int
  Dst :: "IPNet option"

definition FAMILY_V4 :: int where "FAMILY_V4 = 2"
definition FAMILY_V6 :: int where "FAMILY_V6 = 10"
definition IFA_F_NODAD :: int where "IFA_F_NODAD = 2"
definition SCOPE_LINK :: int where "SCOPE_LINK = 253"

text \<open>A netlink handle is known by an identifier; a namespace is opened as a file
  descriptor.\<close>

type_synonym Handle = nat

datatype loglevel = Debugf | Errorf

text \<open>Every call that leaves the file: the netlink calls with their handle, the namespace
  helpers, the logger and the clock.\<close>

datatype call =
    CLinkByName Handle string
  | CLinkAdd Handle string
  | CLinkDel Handle Link
  | CLinkSetDown Handle Link
  | CLinkSetUp Handle Link
  | CLinkSetName Handle Link string
  | CLinkSetHardwareAddr Handle Link "byte list"
  | CLinkSetMaster Handle Link string
  | CLinkSetNsFd Handle Link int
  | CAddrAdd Handle Link Addr
  | CRouteAdd Handle Route
  | CRouteList Handle int
  | CGetFromPath string
  | CNsClose int
  | CsetIPv6 string string bool
  | CcheckLoV6
  | CSleep nat
  | CLog loglevel string

text \<open>An error of a collaborator is opaque to the file.\<close>

datatype kerr = Kerr string

text \<open>The kernel and the helper packages: their answers, given the calls made so far.
  \<open>answer\<close> serves the calls that return only an \<^verbatim>\<open>error\<close>.\<close>

record kernel =
  link_by_name :: "call list \<Rightarrow> Handle \<Rightarrow> string \<Rightarrow> kerr + Link"
  route_list :: "call list \<Rightarrow> Handle \<Rightarrow> int \<Rightarrow> kerr + Route list"
  get_from_path :: "call list \<Rightarrow> string \<Rightarrow> kerr + int"
  answer :: "call list \<Rightarrow> call \<Rightarrow> kerr option"
  NlHandle :: Handle
  ParseHandlerInt :: int
  lo_v6 :: "call list \<Rightarrow> bool"

subsection \<open>The interface entity and the namespace\<close>

text \<open>\<^verbatim>\<open>nwIface\<close>, lines 22-34. The fields of reference type hold here what the reference
  leads to (the store behind them is the subject of the last section); \<^verbatim>\<open>mac\<close> and the
  two addresses may be \<^verbatim>\<open>nil\<close>. The back-reference \<^verbatim>\<open>ns\<close> is the one namespace of the
  model: \<^verbatim>\<open>AddInterface\<close>, the only place that builds an entity, sets it to its own
  receiver (line 186).\<close>

record nwIface =
  srcName :: string
  dstName :: string
  master :: string
  dstMaster :: string
  mac :: "byte list option"
  address :: "IPNet option"
  addressIPv6 :: "IPNet option"
  llAddrs :: "IPNet option list"
  routes :: "IPNet option list"
  bridge :: bool

text \<open>\<^verbatim>\<open>networkNamespace\<close> is declared outside the file; these are the fields the file
  uses. \<open>iFaces\<close> holds pointers. \<open>nextIfIndex\<close> is a Go \<^verbatim>\<open>map[string]int\<close>: a key never
  written reads 0, and \<^verbatim>\<open>int\<close> has 64 bits.\<close>

record networkNamespace =
  path :: string
  iFaces :: "nat list"
  nextIfIndex :: "string \<Rightarrow> 64 word"
  isDefault :: bool
  nlHandle :: Handle
  loV6Enabled :: bool

text \<open>The state: the namespace, the entities allocated so far (a pointer is an index;
  nothing is ever freed), and the calls made so far.\<close>

record world =
  ns :: networkNamespace
  heap :: "nwIface list"
  trace :: "call list"

text \<open>The errors the file builds, one constructor for each \<^verbatim>\<open>fmt.Errorf\<close>, with its
  arguments; \<open>Kernel\<close> is an error of a collaborator passed on as it is. \<open>NilReceiver\<close>
  is the panic of a method called on a pointer that leads to no entity.\<close>

datatype ErrMessage =
    ErrRenaming string string
  | ErrSettingMAC string "byte list option"
  | ErrSettingIP string "IPNet option"
  | ErrSettingIPv6 string "IPNet option"
  | ErrSettingMaster string string
  | ErrSettingLinkLocal string "IPNet option list"

datatype error =
    Kernel kerr
  | NilReceiver
  | MasterNotFound string string
  | FailedCreateBridge string error
  | FailedGetLink string error
  | FailedGetNamespace string error
  | FailedSetNamespace string error
  | FailedSetLinkDown error
  | ConfigError ErrMessage error
  | FailedSetLinkUp error
  | FailedSetRoutes string "IPNet option list" error
  | FailedDeletingBridge string error
  | FailedStatistics string string error
  | NoStatistics
  | RouteConflict IPNet Route
  | FailedEnableIPv6 error

subsection \<open>Calls\<close>

definition emit :: "call \<Rightarrow> world \<Rightarrow> world" where
  "emit c w = w\<lparr>trace := trace w @ [c]\<rparr>"

definition nlcall :: "kernel \<Rightarrow> call \<Rightarrow> world \<Rightarrow> error option \<times> world" where
  "nlcall K c w = (map_option Kernel (answer K (trace w) c), emit c w)"

definition LinkByName :: "kernel \<Rightarrow> Handle \<Rightarrow> string \<Rightarrow> world \<Rightarrow> (error + Link) \<times> world" where
  "LinkByName K h name w =
     (map_sum Kernel id (link_by_name K (trace w) h name), emit (CLinkByName h name) w)"

definition RouteList :: "kernel \<Rightarrow> Handle \<Rightarrow> int \<Rightarrow> world \<Rightarrow> (error + Route list) \<times> world" where
  "RouteList K h family w =
     (map_sum Kernel id (route_list K (trace w) h family), emit (CRouteList h family) w)"

definition GetFromPath :: "kernel \<Rightarrow> string \<Rightarrow> world \<Rightarrow> (error + int) \<times> world" where
  "GetFromPath K p w =
     (map_sum Kernel id (get_from_path K (trace w) p), emit (CGetFromPath p) w)"

definition LinkAdd :: "kernel \<Rightarrow> Handle \<Rightarrow> string \<Rightarrow> world \<Rightarrow> error option \<times> world" where
  "LinkAdd K h name = nlcall K (CLinkAdd h name)"

definition LinkDel :: "kernel \<Rightarrow> Handle \<Rightarrow> Link \<Rightarrow> world \<Rightarrow> error option \<times> world" where
  "LinkDel K h l = nlcall K (CLinkDel h l)"

definition LinkSetDown :: "kernel \<Rightarrow> Handle \<Rightarrow> Link \<Rightarrow> world \<Rightarrow> error option \<times> world" where
  "LinkSetDown K h l = nlcall K (CLinkSetDown h l)"

definition LinkSetUp :: "kernel \<Rightarrow> Handle \<Rightarrow> Link \<Rightarrow> world \<Rightarrow> error option \<times> world" where
  "LinkSetUp K h l = nlcall K (CLinkSetUp h l)"

definition LinkSetName :: "kernel \<Rightarrow> Handle \<Rightarrow> Link \<Rightarrow> string \<Rightarrow> world \<Rightarrow> error option \<times> world" where
  "LinkSetName K h l name = nlcall K (CLinkSetName h l name)"

definition LinkSetHardwareAddr ::
  "kernel \<Rightarrow> Handle \<Rightarrow> Link \<Rightarrow> byte list \<Rightarrow> world \<Rightarrow> error option \<times> world" where
  "LinkSetHardwareAddr K h l hw = nlcall K (CLinkSetHardwareAddr h l hw)"

definition LinkSetMaster :: "kernel \<Rightarrow> Handle \<Rightarrow> Link \<Rightarrow> string \<Rightarrow> world \<Rightarrow> error option \<times> world" where
  "LinkSetMaster K h l br = nlcall K (CLinkSetMaster h l br)"

definition LinkSetNsFd :: "kernel \<Rightarrow> Handle \<Rightarrow> Link \<Rightarrow> int \<Rightarrow> world \<Rightarrow> error option \<times> world" where
  "LinkSetNsFd K h l fd = nlcall K (CLinkSetNsFd h l fd)"

definition AddrAdd :: "kernel \<Rightarrow> Handle \<Rightarrow> Link \<Rightarrow> Addr \<Rightarrow> world \<Rightarrow> error option \<times> world" where
  "AddrAdd K h l a = nlcall K (CAddrAdd h l a)"

definition RouteAdd :: "kernel \<Rightarrow> Handle \<Rightarrow> Route \<Rightarrow> world \<Rightarrow> error option \<times> world" where
  "RouteAdd K h r = nlcall K (CRouteAdd h r)"

definition setIPv6 :: "kernel \<Rightarrow> string \<Rightarrow> string \<Rightarrow> bool \<Rightarrow> world \<Rightarrow> error option \<times> world" where
  "setIPv6 K nspath iface enable = nlcall K (CsetIPv6 nspath iface enable)"

text \<open>Modelled from the spec: \<^verbatim>\<open>checkLoV6\<close> is a method of the namespace declared outside
  the file. The spec calls it a fire-and-forget fix-up of the IPv6 state of the loopback
  device that surfaces no error: the model records the call and lets it set the loopback
  flag of the namespace, nothing else.\<close>

definition checkLoV6 :: "kernel \<Rightarrow> world \<Rightarrow> world" where
  "checkLoV6 K w = emit CcheckLoV6 (w\<lparr>ns := (ns w)\<lparr>loV6Enabled := lo_v6 K (trace w)\<rparr>\<rparr>)"

subsection \<open>Accessors, lines 36-91\<close>

definition SrcName :: "nwIface \<Rightarrow> string" where "SrcName i = srcName i"
definition DstName :: "nwIface \<Rightarrow> string" where "DstName i = dstName i"
definition DstMaster :: "nwIface \<Rightarrow> string" where "DstMaster i = dstMaster i"
definition Bridge :: "nwIface \<Rightarrow> bool" where "Bridge i = bridge i"
definition Master :: "nwIface \<Rightarrow> string" where "Master i = master i"


text \<open>The copying accessors (lines 63-75 and 84-91), as a caller reads them: the result
  leads to what the field leads to. That the result is a copy, and what a copy is, needs
  the store and is the subject of the last section; the code below only reads what these
  results lead to and drops them.\<close>

definition MacAddress :: "nwIface \<Rightarrow> byte list option" where "MacAddress i = mac i"
definition Address :: "nwIface \<Rightarrow> IPNet option" where "Address i = address i"
definition AddressIPv6 :: "nwIface \<Rightarrow> IPNet option" where "AddressIPv6 i = addressIPv6 i"
definition LinkLocalAddresses :: "nwIface \<Rightarrow> IPNet option list" where
  "LinkLocalAddresses i = llAddrs i"
definition Routes :: "nwIface \<Rightarrow> IPNet option list" where
  "Routes i = map (\<lambda>route. route) (routes i)"

subsection \<open>\<^verbatim>\<open>checkRouteConflict\<close>, lines 387-401\<close>

fun routeLoop :: "IPNet \<Rightarrow> Route list \<Rightarrow> error option" where
  "routeLoop address' [] = None"
| "routeLoop address' (route # rest) =
     (case Dst route of
        None \<Rightarrow> routeLoop address' rest
      | Some d \<Rightarrow>
          if Contains d (IP address') \<or> Contains address' (IP d)
          then Some (RouteConflict address' route)
          else routeLoop address' rest)"

text \<open>Both callers pass an address they have found not to be \<^verbatim>\<open>nil\<close>.\<close>

definition checkRouteConflict ::
  "kernel \<Rightarrow> Handle \<Rightarrow> IPNet \<Rightarrow> int \<Rightarrow> world \<Rightarrow> error option \<times> world" where
  "checkRouteConflict K nlh address' family w =
     (case RouteList K nlh family w of
        (Inl err, w1) \<Rightarrow> (Some err, w1)
      | (Inr routes', w1) \<Rightarrow> (routeLoop address' routes', w1))"

subsection \<open>The configurators, lines 317-385\<close>

type_synonym configurator =
  "kernel \<Rightarrow> Handle \<Rightarrow> Link \<Rightarrow> nwIface \<Rightarrow> world \<Rightarrow> error option \<times> world"

definition setInterfaceMaster :: configurator where
  "setInterfaceMaster K nlh iface i w =
     (if DstMaster i = [] then (None, w)
      else LinkSetMaster K nlh iface (DstMaster i) w)"

definition setInterfaceMAC :: configurator where
  "setInterfaceMAC K nlh iface i w =
     (case MacAddress i of
        None \<Rightarrow> (None, w)
      | Some hw \<Rightarrow> LinkSetHardwareAddr K nlh iface hw w)"

definition setInterfaceIP :: configurator where
  "setInterfaceIP K nlh iface i w =
     (case Address i of
        None \<Rightarrow> (None, w)
      | Some a \<Rightarrow>
          (case checkRouteConflict K nlh a FAMILY_V4 w of
             (Some err, w1) \<Rightarrow> (Some err, w1)
           | (None, w1) \<Rightarrow>
               AddrAdd K nlh iface \<lparr>addr_IPNet = Address i, addr_Label = [], addr_Flags = 0\<rparr> w1))"

definition setInterfaceIPv6 :: configurator where
  "setInterfaceIPv6 K nlh iface i w =
     (case AddressIPv6 i of
        None \<Rightarrow> (None, w)
      | Some a \<Rightarrow>
          (case checkRouteConflict K nlh a FAMILY_V6 w of
             (Some err, w1) \<Rightarrow> (Some err, w1)
           | (None, w1) \<Rightarrow>
               (case setIPv6 K (path (ns w1)) (DstName i) True w1 of
                  (Some err, w2) \<Rightarrow> (Some (FailedEnableIPv6 err), w2)
                | (None, w2) \<Rightarrow>
                    AddrAdd K nlh iface
                      \<lparr>addr_IPNet = AddressIPv6 i, addr_Label = [], addr_Flags = IFA_F_NODAD\<rparr> w2)))"

fun linkLocalLoop :: "kernel \<Rightarrow> Handle \<Rightarrow> Link \<Rightarrow> IPNet option list \<Rightarrow> world \<Rightarrow> error option \<times> world" where
  "linkLocalLoop K nlh iface [] w = (None, w)"
| "linkLocalLoop K nlh iface (llIP # rest) w =
     (case AddrAdd K nlh iface \<lparr>addr_IPNet = llIP, addr_Label = [], addr_Flags = 0\<rparr> w of
        (Some err, w1) \<Rightarrow> (Some err, w1)
      | (None, w1) \<Rightarrow> linkLocalLoop K nlh iface rest w1)"

definition setInterfaceLinkLocalIPs :: configurator where
  "setInterfaceLinkLocalIPs K nlh iface i w = linkLocalLoop K nlh iface (LinkLocalAddresses i) w"

definition setInterfaceName :: configurator where
  "setInterfaceName K nlh iface i w = LinkSetName K nlh iface (DstName i) w"

fun routeAddLoop :: "kernel \<Rightarrow> Handle \<Rightarrow> Link \<Rightarrow> IPNet option list \<Rightarrow> world \<Rightarrow> error option \<times> world" where
  "routeAddLoop K nlh iface [] w = (None, w)"
| "routeAddLoop K nlh iface (route # rest) w =
     (case RouteAdd K nlh \<lparr>Scope = SCOPE_LINK, LinkIndex = attrs_Index iface, Dst = route\<rparr> w of
        (Some err, w1) \<Rightarrow> (Some err, w1)
      | (None, w1) \<Rightarrow> routeAddLoop K nlh iface rest w1)"

definition setInterfaceRoutes :: configurator where
  "setInterfaceRoutes K nlh iface i w = routeAddLoop K nlh iface (Routes i) w"

subsection \<open>\<^verbatim>\<open>configureInterface\<close>, lines 295-315\<close>

definition ifaceConfigurators :: "Link \<Rightarrow> nwIface \<Rightarrow> (configurator \<times> ErrMessage) list" where
  "ifaceConfigurators iface i =
     (let ifaceName = attrs_Name iface in
      [(setInterfaceName, ErrRenaming ifaceName (DstName i)),
       (setInterfaceMAC, ErrSettingMAC ifaceName (MacAddress i)),
       (setInterfaceIP, ErrSettingIP ifaceName (Address i)),
       (setInterfaceIPv6, ErrSettingIPv6 ifaceName (AddressIPv6 i)),
       (setInterfaceMaster, ErrSettingMaster ifaceName (DstMaster i)),
       (setInterfaceLinkLocalIPs, ErrSettingLinkLocal ifaceName (LinkLocalAddresses i))])"

fun configLoop ::
  "kernel \<Rightarrow> Handle \<Rightarrow> Link \<Rightarrow> nwIface \<Rightarrow> (configurator \<times> ErrMessage) list \<Rightarrow> world
     \<Rightarrow> error option \<times> world" where
  "configLoop K nlh iface i [] w = (None, w)"
| "configLoop K nlh iface i (config # rest) w =
     (case fst config K nlh iface i w of
        (Some err, w1) \<Rightarrow> (Some (ConfigError (snd config) err), w1)
      | (None, w1) \<Rightarrow> configLoop K nlh iface i rest w1)"

definition configureInterface :: configurator where
  "configureInterface K nlh iface i w = configLoop K nlh iface i (ifaceConfigurators iface i) w"

subsection \<open>\<^verbatim>\<open>findDst\<close>, lines 167-180\<close>

fun findDstLoop :: "nwIface list \<Rightarrow> string \<Rightarrow> bool \<Rightarrow> string" where
  "findDstLoop [] srcName' isBridge = []"
| "findDstLoop (i # rest) srcName' isBridge =
     (if SrcName i = srcName' \<and> (\<not> isBridge \<or> Bridge i) then DstName i
      else findDstLoop rest srcName' isBridge)"

definition findDst :: "world \<Rightarrow> string \<Rightarrow> bool \<Rightarrow> string" where
  "findDst w srcName' isBridge =
     findDstLoop (map (\<lambda>p. heap w ! p) (iFaces (ns w))) srcName' isBridge"

subsection \<open>\<^verbatim>\<open>AddInterface\<close>, lines 182-293\<close>

text \<open>Modelled from the spec: the type \<^verbatim>\<open>IfaceOption\<close> and \<^verbatim>\<open>processInterfaceOptions\<close> are
  declared outside the file. The spec lists the options: mac sets the hardware address,
  address the IPv4 network, addressIPv6 the IPv6 network, linkLocalAddresses appends one,
  routes appends one, master sets the source name of the master, bridge marks a bridge.\<close>

datatype IfaceOption =
    OptMac "byte list"
  | OptAddress IPNet
  | OptAddressIPv6 IPNet
  | OptLinkLocalAddresses IPNet
  | OptRoutes IPNet
  | OptMaster string
  | OptBridge

fun applyOption :: "nwIface \<Rightarrow> IfaceOption \<Rightarrow> nwIface" where
  "applyOption i (OptMac hw) = i\<lparr>mac := Some hw\<rparr>"
| "applyOption i (OptAddress a) = i\<lparr>address := Some a\<rparr>"
| "applyOption i (OptAddressIPv6 a) = i\<lparr>addressIPv6 := Some a\<rparr>"
| "applyOption i (OptLinkLocalAddresses a) = i\<lparr>llAddrs := llAddrs i @ [Some a]\<rparr>"
| "applyOption i (OptRoutes r) = i\<lparr>routes := routes i @ [Some r]\<rparr>"
| "applyOption i (OptMaster m) = i\<lparr>master := m\<rparr>"
| "applyOption i OptBridge = i\<lparr>bridge := True\<rparr>"

definition processInterfaceOptions :: "nwIface \<Rightarrow> IfaceOption list \<Rightarrow> nwIface" where
  "processInterfaceOptions i options = foldl applyOption i options"

text \<open>\<^verbatim>\<open>fmt.Sprintf("%s%d", ...)\<close>: the prefix, then the number in decimal, with a minus
  sign when it is negative.\<close>

fun decimal :: "nat \<Rightarrow> string" where
  "decimal n =
     (if n < 10 then [''0123456789'' ! n]
      else decimal (n div 10) @ [''0123456789'' ! (n mod 10)])"

declare decimal.simps [simp del]

definition Sprintf_sd :: "string \<Rightarrow> 64 word \<Rightarrow> string" where
  "Sprintf_sd s d =
     s @ (if sint d < 0 then CHR ''-'' # decimal (nat (- sint d)) else decimal (nat (sint d)))"

definition update_iface :: "nat \<Rightarrow> (nwIface \<Rightarrow> nwIface) \<Rightarrow> world \<Rightarrow> world" where
  "update_iface p f w = w\<lparr>heap := (heap w)[p := f (heap w ! p)]\<rparr>"

text \<open>Lines 198-204: the destination name. In the default namespace it is the source
  name; otherwise the prefix followed by the counter of the prefix, which is then
  incremented.\<close>

definition AddInterface_name :: "string \<Rightarrow> nat \<Rightarrow> world \<Rightarrow> world" where
  "AddInterface_name dstPrefix p w =
     (if isDefault (ns w) then update_iface p (\<lambda>i. i\<lparr>dstName := srcName i\<rparr>) w
      else
        (update_iface p
           (\<lambda>i. i\<lparr>dstName := Sprintf_sd dstPrefix (nextIfIndex (ns w) dstPrefix)\<rparr>) w)
        \<lparr>ns := (ns w)\<lparr>nextIfIndex :=
                 (nextIfIndex (ns w))(dstPrefix := nextIfIndex (ns w) dstPrefix + 1)\<rparr>\<rparr>)"

text \<open>Lines 183-210: the entity is allocated and filled from the options, the master is
  resolved, the destination name chosen. The result is the pointer to the entity.\<close>

definition AddInterface_prepare ::
  "string \<Rightarrow> string \<Rightarrow> IfaceOption list \<Rightarrow> world \<Rightarrow> (error + nat) \<times> world" where
  "AddInterface_prepare srcName' dstPrefix options w =
     (let p = length (heap w);
          w1 = w\<lparr>heap := heap w @
                 [processInterfaceOptions
                    \<lparr>srcName = srcName', dstName = dstPrefix, master = [], dstMaster = [],
                     mac = None, address = None, addressIPv6 = None, llAddrs = [],
                     routes = [], bridge = False\<rparr> options]\<rparr>
      in
      if master (heap w1 ! p) \<noteq> [] then
        (let w2 = update_iface p (\<lambda>i. i\<lparr>dstMaster := findDst w1 (master i) True\<rparr>) w1 in
         if dstMaster (heap w2 ! p) = []
         then (Inl (MasterNotFound (master (heap w2 ! p)) (srcName (heap w2 ! p))), w2)
         else (Inr p, AddInterface_name dstPrefix p w2))
      else (Inr p, AddInterface_name dstPrefix p w1))"

text \<open>Lines 212-242: a bridge is created in the namespace; any other device is found in
  the host namespace and, unless the namespace is the default one, moved. The second
  result is the namespace descriptor that line 237 defers closing.\<close>

definition AddInterface_place ::
  "kernel \<Rightarrow> nat \<Rightarrow> world \<Rightarrow> (error option \<times> int option) \<times> world" where
  "AddInterface_place K p w =
     (let i = heap w ! p; nlh = nlHandle (ns w); nlhHost = NlHandle K in
      if bridge i then
        (case LinkAdd K nlh (srcName i) w of
           (Some err, w1) \<Rightarrow> ((Some (FailedCreateBridge (srcName i) err), None), w1)
         | (None, w1) \<Rightarrow> ((None, None), w1))
      else
        (case LinkByName K nlhHost (srcName i) w of
           (Inl err, w1) \<Rightarrow> ((Some (FailedGetLink (srcName i) err), None), w1)
         | (Inr iface, w1) \<Rightarrow>
             if \<not> isDefault (ns w) then
               (case GetFromPath K (path (ns w)) w1 of
                  (Inl err, w2) \<Rightarrow> ((Some (FailedGetNamespace (path (ns w)) err), None), w2)
                | (Inr newNs, w2) \<Rightarrow>
                    (case LinkSetNsFd K nlhHost iface newNs w2 of
                       (Some err, w3) \<Rightarrow>
                         ((Some (FailedSetNamespace (srcName i) err), Some newNs), w3)
                     | (None, w3) \<Rightarrow> ((None, Some newNs), w3)))
             else ((None, None), w1)))"

text \<open>Lines 244-253: the device is found in the namespace and set down.\<close>

definition AddInterface_locate :: "kernel \<Rightarrow> nat \<Rightarrow> world \<Rightarrow> (error + Link) \<times> world" where
  "AddInterface_locate K p w =
     (let i = heap w ! p; nlh = nlHandle (ns w) in
      case LinkByName K nlh (srcName i) w of
        (Inl err, w1) \<Rightarrow> (Inl (FailedGetLink (srcName i) err), w1)
      | (Inr iface, w1) \<Rightarrow>
          (case LinkSetDown K nlh iface w1 of
             (Some err, w2) \<Rightarrow> (Inl (FailedSetLinkDown err), w2)
           | (None, w2) \<Rightarrow> (Inr iface, w2)))"

text \<open>Lines 183-253 together: everything before the configuration.\<close>

definition AddInterface_setup ::
  "kernel \<Rightarrow> string \<Rightarrow> string \<Rightarrow> IfaceOption list \<Rightarrow> world
     \<Rightarrow> ((error + nat \<times> Link) \<times> int option) \<times> world" where
  "AddInterface_setup K srcName' dstPrefix options w =
     (case AddInterface_prepare srcName' dstPrefix options w of
        (Inl err, w1) \<Rightarrow> ((Inl err, None), w1)
      | (Inr p, w1) \<Rightarrow>
          (case AddInterface_place K p w1 of
             ((Some err, deferred), w2) \<Rightarrow> ((Inl err, deferred), w2)
           | ((None, deferred), w2) \<Rightarrow>
               (case AddInterface_locate K p w2 of
                  (Inl err, w3) \<Rightarrow> ((Inl err, deferred), w3)
                | (Inr iface, w3) \<Rightarrow> ((Inr (p, iface), deferred), w3))))"

text \<open>Lines 261-266: after a failed configuration, the device is renamed back and moved
  back; a failure of either is logged.\<close>

definition AddInterface_rollback :: "kernel \<Rightarrow> Handle \<Rightarrow> Link \<Rightarrow> nwIface \<Rightarrow> world \<Rightarrow> world" where
  "AddInterface_rollback K nlh iface i w =
     (let w1 = (case LinkSetName K nlh iface (SrcName i) w of
                  (Some nerr, w') \<Rightarrow>
                    emit (CLog Errorf ''renaming interface (%s->%s) failed, %v after config error %v'') w'
                | (None, w') \<Rightarrow> w')
      in
      case LinkSetNsFd K nlh iface (ParseHandlerInt K) w1 of
        (Some nerr, w') \<Rightarrow>
          emit (CLog Errorf ''moving interface %s to host ns failed, %v, after config error %v'') w'
      | (None, w') \<Rightarrow> w')"

text \<open>Lines 271-276: the loop that brings the link up. \<open>err\<close> is the result of the last
  attempt, \<open>cnt\<close> the number of retries made.\<close>

function linkUpLoop ::
  "kernel \<Rightarrow> Handle \<Rightarrow> Link \<Rightarrow> error option \<Rightarrow> nat \<Rightarrow> world \<Rightarrow> error option \<times> world" where
  "linkUpLoop K nlh iface err cnt w =
     (if err \<noteq> None \<and> cnt < 3 then
        (case LinkSetUp K nlh iface
                (emit (CSleep 10) (emit (CLog Debugf ''retrying link setup because of: %v'') w)) of
           (err', w1) \<Rightarrow> linkUpLoop K nlh iface err' (cnt + 1) w1)
      else (err, w))"
  by pat_completeness auto
termination
  by (relation "measure (\<lambda>(K, nlh, iface, err, cnt, w). 3 - cnt)") auto

declare linkUpLoop.simps [simp del]

definition linkUp :: "kernel \<Rightarrow> Handle \<Rightarrow> Link \<Rightarrow> world \<Rightarrow> error option \<times> world" where
  "linkUp K nlh iface w =
     (case LinkSetUp K nlh iface w of (err, w1) \<Rightarrow> linkUpLoop K nlh iface err 0 w1)"

text \<open>Lines 255-292: configuration, activation, routes, registration.\<close>

definition AddInterface_configure :: "kernel \<Rightarrow> nat \<Rightarrow> Link \<Rightarrow> world \<Rightarrow> error option \<times> world" where
  "AddInterface_configure K p iface w =
     (let i = heap w ! p; nlh = nlHandle (ns w) in
      case configureInterface K nlh iface i w of
        (Some err, w1) \<Rightarrow> (Some err, AddInterface_rollback K nlh iface i w1)
      | (None, w1) \<Rightarrow>
          (case linkUp K nlh iface w1 of
             (Some err, w2) \<Rightarrow> (Some (FailedSetLinkUp err), w2)
           | (None, w2) \<Rightarrow>
               (case setInterfaceRoutes K nlh iface i w2 of
                  (Some err, w3) \<Rightarrow> (Some (FailedSetRoutes (attrs_Name iface) (Routes i) err), w3)
                | (None, w3) \<Rightarrow>
                    (None, checkLoV6 K (w3\<lparr>ns := (ns w3)\<lparr>iFaces := iFaces (ns w3) @ [p]\<rparr>\<rparr>)))))"

definition runDeferred :: "int option \<Rightarrow> world \<Rightarrow> world" where
  "runDeferred deferred w = (case deferred of None \<Rightarrow> w | Some newNs \<Rightarrow> emit (CNsClose newNs) w)"

definition AddInterface ::
  "kernel \<Rightarrow> string \<Rightarrow> string \<Rightarrow> IfaceOption list \<Rightarrow> world \<Rightarrow> error option \<times> world" where
  "AddInterface K srcName' dstPrefix options w =
     (case AddInterface_setup K srcName' dstPrefix options w of
        ((Inl err, deferred), w1) \<Rightarrow> (Some err, runDeferred deferred w1)
      | ((Inr (p, iface), deferred), w1) \<Rightarrow>
          (case AddInterface_configure K p iface w1 of
             (r, w2) \<Rightarrow> (r, runDeferred deferred w2)))"

subsection \<open>\<^verbatim>\<open>Remove\<close>, lines 95-143\<close>

text \<open>Lines 132-137: the first element that is the pointer \<open>p\<close> is cut out.\<close>

function removeLoop :: "nat list \<Rightarrow> nat \<Rightarrow> nat \<Rightarrow> nat list" where
  "removeLoop xs p index =
     (if index < length xs then
        (if xs ! index = p then take index xs @ drop (index + 1) xs
         else removeLoop xs p (index + 1))
      else xs)"
  by pat_completeness auto
termination
  by (relation "measure (\<lambda>(xs, p, index). length xs - index)") auto

declare removeLoop.simps [simp del]

definition Remove :: "kernel \<Rightarrow> nat \<Rightarrow> world \<Rightarrow> error option \<times> world" where
  "Remove K p w =
     (if length (heap w) \<le> p then (Some NilReceiver, w)
      else
        (let i = heap w ! p; isDefault' = isDefault (ns w); nlh = nlHandle (ns w) in
         case LinkByName K nlh (DstName i) w of
           (Inl err, w1) \<Rightarrow> (Some err, w1)
         | (Inr iface, w1) \<Rightarrow>
             (case LinkSetDown K nlh iface w1 of
                (Some err, w2) \<Rightarrow> (Some err, w2)
              | (None, w2) \<Rightarrow>
                  (case LinkSetName K nlh iface (SrcName i) w2 of
                     (Some err, w3) \<Rightarrow>
                       (Some err, emit (CLog Debugf ''LinkSetName failed for interface %s: %v'') w3)
                   | (None, w3) \<Rightarrow>
                       (case (if Bridge i then
                                (case LinkDel K nlh iface w3 of
                                   (Some err, w4) \<Rightarrow>
                                     (Some (FailedDeletingBridge (SrcName i) err), w4)
                                 | (None, w4) \<Rightarrow> (None, w4))
                              else if \<not> isDefault' then
                                (case LinkSetNsFd K nlh iface (ParseHandlerInt K) w3 of
                                   (Some err, w4) \<Rightarrow>
                                     (Some err,
                                      emit (CLog Debugf ''LinkSetNsPid failed for interface %s: %v'') w4)
                                 | (None, w4) \<Rightarrow> (None, w4))
                              else (None, w3)) of
                          (Some err, w4) \<Rightarrow> (Some err, w4)
                        | (None, w4) \<Rightarrow>
                            (None,
                             checkLoV6 K
                               (w4\<lparr>ns := (ns w4)\<lparr>iFaces := removeLoop (iFaces (ns w4)) p 0\<rparr>\<rparr>)))))))"

subsection \<open>\<^verbatim>\<open>Statistics\<close>, lines 146-165\<close>

definition Statistics :: "kernel \<Rightarrow> nat \<Rightarrow> world \<Rightarrow> (error + InterfaceStatistics) \<times> world" where
  "Statistics K p w =
     (if length (heap w) \<le> p then (Inl NilReceiver, w)
      else
        (let i = heap w ! p in
         case LinkByName K (nlHandle (ns w)) (DstName i) w of
           (Inl err, w1) \<Rightarrow> (Inl (FailedStatistics (DstName i) (path (ns w)) err), w1)
         | (Inr l, w1) \<Rightarrow>
             (case attrs_Statistics l of
                None \<Rightarrow> (Inl NoStatistics, w1)
              | Some stats \<Rightarrow>
                  (Inr \<lparr>RxBytes = nl_RxBytes stats, TxBytes = nl_TxBytes stats,
                        RxPackets = nl_RxPackets stats, TxPackets = nl_TxPackets stats,
                        RxDropped = nl_RxDropped stats, TxDropped = nl_TxDropped stats\<rparr>, w1))))"

section \<open>Notions used in the statements\<close>

text \<open>Several calls at once.\<close>

definition emits :: "call list \<Rightarrow> world \<Rightarrow> world" where
  "emits cs w = w\<lparr>trace := trace w @ cs\<rparr>"

text \<open>The calls made between two states.\<close>

definition new_calls :: "world \<Rightarrow> world \<Rightarrow> call list" where
  "new_calls w w' = drop (length (trace w)) (trace w')"

text \<open>\<open>w'\<close> comes from \<open>w\<close> by calls that all satisfy \<open>P\<close>, the namespace and the
  entities untouched.\<close>

definition extends :: "(call \<Rightarrow> bool) \<Rightarrow> world \<Rightarrow> world \<Rightarrow> bool" where
  "extends P w w' \<longleftrightarrow>
     ns w' = ns w \<and> heap w' = heap w \<and> (\<exists>cs. trace w' = trace w @ cs \<and> list_all P cs)"

text \<open>The condition of the route conflict checker in the words of the specification: the
  candidate network contains the destination of some route (its address, which is how
  the code tests it), or is contained by it. A route without a destination has none to
  compare.\<close>

definition routeConflicts :: "IPNet \<Rightarrow> Route list \<Rightarrow> bool" where
  "routeConflicts a rs \<longleftrightarrow>
     list_ex (\<lambda>route. case Dst route of
                         None \<Rightarrow> False
                       | Some d \<Rightarrow> Contains a (IP d) \<or> Contains d (IP a)) rs"

text \<open>The same condition on networks as sets of addresses. \<open>covers A B\<close>: every address
  of \<open>B\<close> is an address of \<open>A\<close>. A network is well formed for a family when its address
  and mask have the length of the family, 4 or 16 bytes, a 16-byte address not being an
  IPv4-mapped one. Two masks are nested when one keeps every bit of the other, as the
  masks of two prefixes do.\<close>

definition covers :: "IPNet \<Rightarrow> IPNet \<Rightarrow> bool" where
  "covers A B \<longleftrightarrow> (\<forall>ip. Contains B ip \<longrightarrow> Contains A ip)"

definition wellFormed :: "nat \<Rightarrow> IPNet \<Rightarrow> bool" where
  "wellFormed L n \<longleftrightarrow>
     length (IP n) = L \<and> length (Mask n) = L \<and> (L = 4 \<or> L = 16 \<and> To4 (IP n) = None)"

definition nestedMasks :: "byte list \<Rightarrow> byte list \<Rightarrow> bool" where
  "nestedMasks m1 m2 \<longleftrightarrow>
     list_all2 (\<lambda>x y. x AND y = x) m1 m2 \<or> list_all2 (\<lambda>x y. x AND y = y) m1 m2"

text \<open>The address as \<^verbatim>\<open>Contains\<close> compares it: in its 4-byte form when it has one.\<close>

definition norm4 :: "byte list \<Rightarrow> byte list" where
  "norm4 ip = (case To4 ip of Some x \<Rightarrow> x | None \<Rightarrow> ip)"

text \<open>\<^verbatim>\<open>net.CIDRMask\<close> of the Go standard library: the mask of \<open>bits\<close> bits whose first
  \<open>ones\<close> bits are set; \<^verbatim>\<open>nil\<close> when \<open>bits\<close> is neither 32 nor 128 or \<open>ones\<close> is out of
  range.\<close>

fun cidrBytes :: "nat \<Rightarrow> nat \<Rightarrow> byte list" where
  "cidrBytes 0 n = []"
| "cidrBytes (Suc l) n =
     (if 8 \<le> n then 0xff # cidrBytes l (n - 8) else NOT (drop_bit n 0xff) # cidrBytes l 0)"

definition CIDRMask :: "nat \<Rightarrow> nat \<Rightarrow> byte list" where
  "CIDRMask ones bits =
     (if bits \<noteq> 32 \<and> bits \<noteq> 128 then []
      else if bits < ones then []
      else cidrBytes (bits div 8) ones)"

text \<open>A call that adds an address to a device; a call that touches the IPv6 state of a
  device (the IPv6 address is the one added with the no-DAD flag).\<close>

definition addsAddress :: "call \<Rightarrow> bool" where
  "addsAddress c = (case c of CAddrAdd h l a \<Rightarrow> True | _ \<Rightarrow> False)"

definition addsIPv6 :: "call \<Rightarrow> bool" where
  "addsIPv6 c =
     (case c of
        CAddrAdd h l a \<Rightarrow> addr_Flags a = IFA_F_NODAD
      | CsetIPv6 p n e \<Rightarrow> True
      | _ \<Rightarrow> False)"

text \<open>The calls of \<open>k\<close> attempts to bring a link up that fail and are retried: each
  attempt is followed by a log entry and a pause of 10 milliseconds.\<close>

definition retryCalls :: "Handle \<Rightarrow> Link \<Rightarrow> nat \<Rightarrow> call list" where
  "retryCalls nlh iface k =
     concat (replicate k
       [CLinkSetUp nlh iface, CLog Debugf ''retrying link setup because of: %v'', CSleep 10])"

text \<open>The calls of the rollback after a failed configuration, given the calls made so
  far: the rename to the source name, a log entry if it failed, the move to the namespace
  of the caller, a log entry if it failed.\<close>

definition rollbackCalls :: "kernel \<Rightarrow> Handle \<Rightarrow> Link \<Rightarrow> nwIface \<Rightarrow> call list \<Rightarrow> call list" where
  "rollbackCalls K nlh iface i t =
     (let rn = CLinkSetName nlh iface (SrcName i);
          mv = CLinkSetNsFd nlh iface (ParseHandlerInt K);
          t1 = [rn] @ (case answer K t rn of
                         None \<Rightarrow> []
                       | Some nerr \<Rightarrow>
                           [CLog Errorf ''renaming interface (%s->%s) failed, %v after config error %v''])
      in t1 @ [mv] @ (case answer K (t @ t1) mv of
                        None \<Rightarrow> []
                      | Some nerr \<Rightarrow>
                          [CLog Errorf ''moving interface %s to host ns failed, %v, after config error %v'']))"

text \<open>The call that the deferred close of line 237 makes, if a namespace was opened.\<close>

definition closeCalls :: "int option \<Rightarrow> call list" where
  "closeCalls deferred = (case deferred of None \<Rightarrow> [] | Some newNs \<Rightarrow> [CNsClose newNs])"

text \<open>A call of \<^verbatim>\<open>AddInterface\<close> has allocated a destination name when it got past the
  resolution of the master, that is, when its result is not the error that the master
  was not found.\<close>

definition allocated :: "error option \<Rightarrow> bool" where
  "allocated r = (case r of Some (MasterNotFound m s) \<Rightarrow> False | _ \<Rightarrow> True)"

text \<open>A sequence of calls of \<^verbatim>\<open>AddInterface\<close> on one namespace, each given by source
  name, prefix and options; the results come back in order.\<close>

type_synonym addCall = "string \<times> string \<times> IfaceOption list"

fun AddInterfaces :: "kernel \<Rightarrow> addCall list \<Rightarrow> world \<Rightarrow> error option list \<times> world" where
  "AddInterfaces K [] w = ([], w)"
| "AddInterfaces K (c # cs) w =
     (case c of
        (s, pfx, os) \<Rightarrow>
          (case AddInterface K s pfx os w of
             (r, w1) \<Rightarrow>
               (case AddInterfaces K cs w1 of
                  (rs, w') \<Rightarrow> (r # rs, w'))))"

definition allocations :: "addCall list \<Rightarrow> error option list \<Rightarrow> string \<Rightarrow> nat \<Rightarrow> nat" where
  "allocations cs rs pfx j =
     length (filter (\<lambda>(c, r). fst (snd c) = pfx \<and> allocated r) (take j (zip cs rs)))"

text \<open>Decimal digits, and the value of a string of digits.\<close>

definition isDigit :: "char \<Rightarrow> bool" where
  "isDigit c \<longleftrightarrow> c \<in> set ''0123456789''"

definition endsInDigit :: "string \<Rightarrow> bool" where
  "endsInDigit s \<longleftrightarrow> s \<noteq> [] \<and> isDigit (last s)"

definition digitValue :: "char \<Rightarrow> nat" where
  "digitValue c = of_char c - 48"

definition decimalValue :: "string \<Rightarrow> nat" where
  "decimalValue ds = foldl (\<lambda>a c. 10 * a + digitValue c) 0 ds"

subsection \<open>Concrete kernels and states for the examples\<close>

text \<open>A kernel where every call succeeds, every device exists, and no route is known.\<close>

definition kernel_ok :: kernel where
  "kernel_ok =
     \<lparr>link_by_name = (\<lambda>t h n. Inr \<lparr>attrs_Name = n, attrs_Index = 7, attrs_Statistics = None\<rparr>),
      route_list = (\<lambda>t h f. Inr []),
      get_from_path = (\<lambda>t p. Inr 5),
      answer = (\<lambda>t c. None),
      NlHandle = 0,
      ParseHandlerInt = 3,
      lo_v6 = (\<lambda>t. False)\<rparr>"

text \<open>A fresh namespace that is not the default one.\<close>

definition sandbox :: world where
  "sandbox =
     \<lparr>ns = \<lparr>path = ''/var/run/docker/netns/sb'', iFaces = [], nextIfIndex = (\<lambda>s. 0),
            isDefault = False, nlHandle = 1, loV6Enabled = False\<rparr>,
      heap = [], trace = []\<rparr>"

text \<open>The network \<open>a.b.c.d/24\<close>.\<close>

definition net24 :: "byte \<Rightarrow> byte \<Rightarrow> byte \<Rightarrow> byte \<Rightarrow> IPNet" where
  "net24 a b c d = \<lparr>IP = [a, b, c, d], Mask = [255, 255, 255, 0]\<rparr>"

text \<open>The kernel of the example of the specification: one IPv4 route, to
  \<open>10.0.0.0/24\<close>.\<close>

definition route10 :: Route where
  "route10 = \<lparr>Scope = 0, LinkIndex = 2, Dst = Some (net24 10 0 0 0)\<rparr>"

definition kernel_route10 :: kernel where
  "kernel_route10 =
     kernel_ok\<lparr>route_list := (\<lambda>t h f. if f = FAMILY_V4 then Inr [route10] else Inr [])\<rparr>"

text \<open>An IPv6 network of prefix length 8, and a kernel with one IPv6 route, to
  \<open>fd00::/8\<close>.\<close>

definition net6 :: "byte \<Rightarrow> byte \<Rightarrow> IPNet" where
  "net6 a z = \<lparr>IP = a # replicate 14 0 @ [z], Mask = 255 # replicate 15 0\<rparr>"

definition route_fd :: Route where
  "route_fd = \<lparr>Scope = 0, LinkIndex = 2, Dst = Some (net6 0xfd 0)\<rparr>"

definition kernel_route_fd :: kernel where
  "kernel_route_fd =
     kernel_ok\<lparr>route_list := (\<lambda>t h f. if f = FAMILY_V6 then Inr [route_fd] else Inr [])\<rparr>"

text \<open>A bare entity, and one with every optional setting present.\<close>

definition iface_bare :: nwIface where
  "iface_bare =
     \<lparr>srcName = ''veth0'', dstName = ''eth0'', master = [], dstMaster = [], mac = None,
      address = None, addressIPv6 = None, llAddrs = [], routes = [], bridge = False\<rparr>"

definition iface_full :: nwIface where
  "iface_full =
     \<lparr>srcName = ''veth0'', dstName = ''eth0'', master = ''br'', dstMaster = ''br0'',
      mac = Some [2, 66, 172, 17, 0, 2], address = Some (net24 172 17 0 2),
      addressIPv6 = Some (net6 0xfd 2), llAddrs = [Some (net24 169 254 0 2)],
      routes = [Some (net24 10 1 0 0)], bridge = False\<rparr>"

definition link_veth0 :: Link where
  "link_veth0 = \<lparr>attrs_Name = ''veth0'', attrs_Index = 7, attrs_Statistics = None\<rparr>"

text \<open>A kernel that refuses to set a hardware address.\<close>

definition kernel_no_mac :: kernel where
  "kernel_no_mac =
     kernel_ok\<lparr>answer :=
       (\<lambda>t c. case c of CLinkSetHardwareAddr h l hw \<Rightarrow> Some (Kerr ''EPERM'') | _ \<Rightarrow> None)\<rparr>"

text \<open>A kernel on which the destination name \<open>eth0\<close> is taken and the namespace of the
  caller (descriptor 3) cannot be entered; one that brings a link up at the third attempt;
  one that never does.\<close>

definition kernel_taken :: kernel where
  "kernel_taken =
     kernel_ok\<lparr>answer :=
       (\<lambda>t c. case c of
                 CLinkSetName h l n \<Rightarrow> if n = ''eth0'' then Some (Kerr ''EEXIST'') else None
               | CLinkSetNsFd h l fd \<Rightarrow> if fd = 3 then Some (Kerr ''EINVAL'') else None
               | _ \<Rightarrow> None)\<rparr>"

definition kernel_up_third :: kernel where
  "kernel_up_third =
     kernel_ok\<lparr>answer :=
       (\<lambda>t c. case c of
                 CLinkSetUp h l \<Rightarrow>
                   if length (filter (\<lambda>x. case x of CLinkSetUp h' l' \<Rightarrow> True | _ \<Rightarrow> False) t) < 2
                   then Some (Kerr ''EBUSY'') else None
               | _ \<Rightarrow> None)\<rparr>"

definition kernel_up_never :: kernel where
  "kernel_up_never =
     kernel_ok\<lparr>answer :=
       (\<lambda>t c. case c of CLinkSetUp h l \<Rightarrow> Some (Kerr ''EBUSY'') | _ \<Rightarrow> None)\<rparr>"

text \<open>A namespace with two registered entities that carry the same names, and one with a
  registered bridge; a kernel that refuses every rename.\<close>

definition sandbox_twins :: world where
  "sandbox_twins =
     sandbox\<lparr>heap := [iface_bare, iface_bare], ns := (ns sandbox)\<lparr>iFaces := [0, 1]\<rparr>\<rparr>"

definition sandbox_bridge :: world where
  "sandbox_bridge =
     sandbox\<lparr>heap := [iface_bare\<lparr>srcName := ''br'', dstName := ''br0'', bridge := True\<rparr>],
             ns := (ns sandbox)\<lparr>iFaces := [0]\<rparr>\<rparr>"

definition link_named :: "string \<Rightarrow> Link" where
  "link_named n = \<lparr>attrs_Name = n, attrs_Index = 7, attrs_Statistics = None\<rparr>"

definition kernel_no_rename :: kernel where
  "kernel_no_rename =
     kernel_ok\<lparr>answer :=
       (\<lambda>t c. case c of CLinkSetName h l n \<Rightarrow> Some (Kerr ''EBUSY'') | _ \<Rightarrow> None)\<rparr>"

text \<open>A kernel that knows no device; one that refuses exactly one call; one whose devices
  report statistics.\<close>

definition kernel_no_device :: kernel where
  "kernel_no_device = kernel_ok\<lparr>link_by_name := (\<lambda>t h n. Inl (Kerr ''ENODEV''))\<rparr>"

definition kernel_refusing :: "call \<Rightarrow> kernel" where
  "kernel_refusing c0 =
     kernel_ok\<lparr>answer := (\<lambda>t c. if c = c0 then Some (Kerr ''EIO'') else None)\<rparr>"

definition stats_example :: LinkStatistics where
  "stats_example =
     \<lparr>nl_RxBytes = 1500, nl_TxBytes = 900, nl_RxPackets = 12, nl_TxPackets = 9,
      nl_RxDropped = 1, nl_TxDropped = 0\<rparr>"

definition kernel_stats :: kernel where
  "kernel_stats =
     kernel_ok\<lparr>link_by_name :=
       (\<lambda>t h n. Inr \<lparr>attrs_Name = n, attrs_Index = 7, attrs_Statistics = Some stats_example\<rparr>)\<rparr>"

text \<open>The default namespace; four calls, the third of which names a master that is not
  registered; eleven calls with the prefix \<open>eth\<close> followed by one with the prefix
  \<open>eth1\<close>.\<close>

definition default_ns :: world where
  "default_ns = sandbox\<lparr>ns := (ns sandbox)\<lparr>path := [], isDefault := True\<rparr>\<rparr>"

definition four_calls :: "addCall list" where
  "four_calls =
     [(''veth0'', ''eth'', []), (''veth1'', ''eth'', []),
      (''veth2'', ''eth'', [OptMaster ''br'']), (''veth3'', ''eth'', [])]"

definition twelve_calls :: "addCall list" where
  "twelve_calls =
     map (\<lambda>k. (''veth'' @ decimal k, ''eth'', [])) [0..<11] @ [(''veth11'', ''eth1'', [])]"


section \<open>Basic facts\<close>

lemma trace_emit [simp]: "trace (emit c w) = trace w @ [c]"
  and ns_emit [simp]: "ns (emit c w) = ns w"
  and heap_emit [simp]: "heap (emit c w) = heap w"
  by (simp_all add: emit_def)

lemma trace_emits [simp]: "trace (emits cs w) = trace w @ cs"
  and ns_emits [simp]: "ns (emits cs w) = ns w"
  and heap_emits [simp]: "heap (emits cs w) = heap w"
  by (simp_all add: emits_def)

lemma emits_Nil [simp]: "emits [] w = w"
  by (simp add: emits_def)

lemma emits_emits [simp]: "emits cs2 (emits cs1 w) = emits (cs1 @ cs2) w"
  by (simp add: emits_def)

lemma emit_emits: "emit c w = emits [c] w"
  by (simp add: emit_def emits_def)

lemma nlcall_eq: "nlcall K c w = (r, w') \<longleftrightarrow> r = map_option Kernel (answer K (trace w) c) \<and> w' = emit c w"
  by (auto simp: nlcall_def)

lemma map_sum_Kernel_Inl [simp]:
  "map_sum Kernel id x = Inl e \<longleftrightarrow> (\<exists>k. x = Inl k \<and> e = Kernel k)"
  by (cases x) auto

lemma map_sum_Kernel_Inr [simp]: "map_sum Kernel id x = Inr v \<longleftrightarrow> x = Inr v"
  by (cases x) auto

lemmas call_defs = LinkAdd_def LinkDel_def LinkSetDown_def LinkSetUp_def LinkSetName_def
  LinkSetHardwareAddr_def LinkSetMaster_def LinkSetNsFd_def AddrAdd_def RouteAdd_def setIPv6_def

lemma routeLoop_None: "routeLoop a rs = None \<longleftrightarrow> \<not> routeConflicts a rs"
  by (induction rs) (auto simp: routeConflicts_def split: option.splits)

lemma routeLoop_Some: "routeLoop a rs = Some e \<Longrightarrow> \<exists>route \<in> set rs. e = RouteConflict a route"
  by (induction rs) (auto split: option.splits if_splits)

lemma routeLoop_conflict:
  "(\<exists>route. routeLoop a rs = Some (RouteConflict a route)) \<longleftrightarrow> routeConflicts a rs"
  using routeLoop_None [of a rs] routeLoop_Some [of a rs] by (cases "routeLoop a rs") auto

lemma checkRouteConflict_conflict:
  assumes "checkRouteConflict K nlh a family w = (r, w')"
  shows "w' = emit (CRouteList nlh family) w"
    and "(\<exists>route. r = Some (RouteConflict a route)) \<longleftrightarrow>
        (\<exists>rs. route_list K (trace w) nlh family = Inr rs \<and> routeConflicts a rs)"
proof -
  show "w' = emit (CRouteList nlh family) w"
    using assms unfolding checkRouteConflict_def RouteList_def
    by (cases "route_list K (trace w) nlh family") auto
  show "(\<exists>route. r = Some (RouteConflict a route)) \<longleftrightarrow>
        (\<exists>rs. route_list K (trace w) nlh family = Inr rs \<and> routeConflicts a rs)"
  proof (cases "route_list K (trace w) nlh family")
    case (Inl e)
    then show ?thesis
      using assms unfolding checkRouteConflict_def RouteList_def by auto
  next
    case (Inr rs)
    then have "r = routeLoop a rs"
      using assms unfolding checkRouteConflict_def RouteList_def by auto
    then show ?thesis
      using Inr routeLoop_conflict [of a rs] by simp
  qed
qed

lemma setInterfaceIP_conflict:
  "Address i = Some a \<Longrightarrow> setInterfaceIP K nlh iface i w = (r, w') \<Longrightarrow>
     ((\<exists>route. r = Some (RouteConflict a route)) \<longleftrightarrow>
        (\<exists>rs. route_list K (trace w) nlh FAMILY_V4 = Inr rs \<and> routeConflicts a rs)) \<and>
     ((\<exists>route. r = Some (RouteConflict a route)) \<longrightarrow> w' = emit (CRouteList nlh FAMILY_V4) w)"
  unfolding setInterfaceIP_def
  apply (cases "checkRouteConflict K nlh a FAMILY_V4 w")
  subgoal for r1 w1
    using checkRouteConflict_conflict [of K nlh a FAMILY_V4 w r1 w1]
    apply (cases r1)
     apply (auto simp: AddrAdd_def nlcall_def)
    done
  done

lemma setInterfaceIPv6_conflict:
  "AddressIPv6 i = Some a \<Longrightarrow> setInterfaceIPv6 K nlh iface i w = (r, w') \<Longrightarrow>
     ((\<exists>route. r = Some (RouteConflict a route)) \<longleftrightarrow>
        (\<exists>rs. route_list K (trace w) nlh FAMILY_V6 = Inr rs \<and> routeConflicts a rs)) \<and>
     ((\<exists>route. r = Some (RouteConflict a route)) \<longrightarrow> w' = emit (CRouteList nlh FAMILY_V6) w)"
  unfolding setInterfaceIPv6_def
  apply (cases "checkRouteConflict K nlh a FAMILY_V6 w")
  subgoal for r1 w1
    using checkRouteConflict_conflict [of K nlh a FAMILY_V6 w r1 w1]
    apply (cases r1)
     apply (auto simp: AddrAdd_def setIPv6_def nlcall_def split: option.splits)
    done
  done

lemma extends_refl [simp, intro!]: "extends P w w"
  by (simp add: extends_def)

lemma extends_emit [intro!]: "P c \<Longrightarrow> extends P w w' \<Longrightarrow> extends P w (emit c w')"
  by (auto simp: extends_def)

lemma extends_trans: "extends P w w1 \<Longrightarrow> extends P w1 w2 \<Longrightarrow> extends P w w2"
  by (auto simp: extends_def)

lemma extends_same: "extends P w w' \<Longrightarrow> ns w' = ns w \<and> heap w' = heap w"
  by (simp add: extends_def)

lemma nlcall_extends: "nlcall K c w = (r, w') \<Longrightarrow> P c \<Longrightarrow> extends P w w'"
  by (auto simp: nlcall_def)

lemma place_extends:
  assumes "AddInterface_place K p w = (r, w')"
    and "\<And>h n. P (CLinkAdd h n)" and "\<And>h n. P (CLinkByName h n)"
    and "\<And>x. P (CGetFromPath x)" and "\<And>h l fd. P (CLinkSetNsFd h l fd)"
  shows "extends P w w'"
  using assms
  unfolding AddInterface_place_def Let_def call_defs nlcall_def LinkByName_def GetFromPath_def
  by (auto split: if_splits prod.splits option.splits sum.splits)

lemma locate_extends:
  assumes "AddInterface_locate K p w = (r, w')"
    and "\<And>h n. P (CLinkByName h n)" and "\<And>h l. P (CLinkSetDown h l)"
  shows "extends P w w'"
  using assms
  unfolding AddInterface_locate_def Let_def call_defs nlcall_def LinkByName_def
  by (auto split: if_splits prod.splits option.splits sum.splits)


lemma extends_new_calls:
  "extends P w w' \<Longrightarrow> trace w' = trace w @ new_calls w w' \<and> list_all P (new_calls w w')"
  by (auto simp: extends_def new_calls_def)

lemma new_calls_trans:
  "trace w1 = trace w @ new_calls w w1 \<Longrightarrow> trace w2 = trace w1 @ new_calls w1 w2 \<Longrightarrow>
     new_calls w w2 = new_calls w w1 @ new_calls w1 w2"
  by (metis append.assoc append_eq_conv_conj new_calls_def)

lemma update_iface_simps [simp]:
  "trace (update_iface p f w) = trace w"
  "ns (update_iface p f w) = ns w"
  "length (heap (update_iface p f w)) = length (heap w)"
  by (simp_all add: update_iface_def)

lemma AddInterface_name_simps [simp]:
  "trace (AddInterface_name pfx p w) = trace w"
  "length (heap (AddInterface_name pfx p w)) = length (heap w)"
  "iFaces (ns (AddInterface_name pfx p w)) = iFaces (ns w)"
  "isDefault (ns (AddInterface_name pfx p w)) = isDefault (ns w)"
  "nlHandle (ns (AddInterface_name pfx p w)) = nlHandle (ns w)"
  "path (ns (AddInterface_name pfx p w)) = path (ns w)"
  "loV6Enabled (ns (AddInterface_name pfx p w)) = loV6Enabled (ns w)"
  by (simp_all add: AddInterface_name_def)

lemma prepare_frame:
  assumes "AddInterface_prepare s pfx os w = (r, w')"
  shows "trace w' = trace w" and "iFaces (ns w') = iFaces (ns w)"
    and "isDefault (ns w') = isDefault (ns w)" and "nlHandle (ns w') = nlHandle (ns w)"
    and "path (ns w') = path (ns w)" and "loV6Enabled (ns w') = loV6Enabled (ns w)"
    and "length (heap w') = Suc (length (heap w))"
  using assms unfolding AddInterface_prepare_def Let_def
  by (auto split: if_splits)

lemma prepare_pointer:
  "AddInterface_prepare s pfx os w = (Inr p, w') \<Longrightarrow> p = length (heap w)"
  unfolding AddInterface_prepare_def Let_def by (auto split: if_splits)

lemma runDeferred_extends: "(\<And>fd. P (CNsClose fd)) \<Longrightarrow> extends P w (runDeferred d w)"
  by (auto simp: runDeferred_def split: option.splits)

lemma rollback_extends:
  assumes "\<And>h l n. P (CLinkSetName h l n)" and "\<And>h l fd. P (CLinkSetNsFd h l fd)"
    and "\<And>lv m. P (CLog lv m)"
  shows "extends P w (AddInterface_rollback K nlh iface i w)"
  using assms unfolding AddInterface_rollback_def Let_def call_defs nlcall_def
  by (auto split: option.splits prod.splits)

lemma setup_frame:
  assumes "AddInterface_setup K s pfx os w = (r, w')"
    and "\<And>h n. P (CLinkAdd h n)" and "\<And>h n. P (CLinkByName h n)"
    and "\<And>x. P (CGetFromPath x)" and "\<And>h l fd. P (CLinkSetNsFd h l fd)"
    and "\<And>h l. P (CLinkSetDown h l)"
  shows "\<exists>cs. trace w' = trace w @ cs \<and> list_all P cs" and "iFaces (ns w') = iFaces (ns w)"
    and "isDefault (ns w') = isDefault (ns w)" and "nlHandle (ns w') = nlHandle (ns w)"
    and "path (ns w') = path (ns w)" and "loV6Enabled (ns w') = loV6Enabled (ns w)"
    and "length (heap w') = Suc (length (heap w))"
proof -
  obtain r1 w1 where p: "AddInterface_prepare s pfx os w = (r1, w1)" by (metis surj_pair)
  note f1 = prepare_frame [OF p]
  have "(\<exists>cs. trace w' = trace w @ cs \<and> list_all P cs) \<and> iFaces (ns w') = iFaces (ns w)
    \<and> isDefault (ns w') = isDefault (ns w) \<and> nlHandle (ns w') = nlHandle (ns w)
    \<and> path (ns w') = path (ns w) \<and> loV6Enabled (ns w') = loV6Enabled (ns w)
    \<and> length (heap w') = Suc (length (heap w))"
  proof (cases r1)
    case (Inl e)
    with assms(1) p have "w' = w1" by (simp add: AddInterface_setup_def)
    with f1 show ?thesis by simp
  next
    case (Inr q)
    obtain r2 w2 where pl: "AddInterface_place K q w1 = (r2, w2)" by (metis surj_pair)
    have e2: "extends P w1 w2" by (rule place_extends [OF pl]) (rule assms)+
    show ?thesis
    proof (cases "fst r2")
      case (Some e)
      with assms(1) p pl Inr have "w' = w2"
        by (cases r2) (simp add: AddInterface_setup_def)
      with f1 e2 show ?thesis by (auto simp: extends_def)
    next
      case None
      obtain r3 w3 where lo: "AddInterface_locate K q w2 = (r3, w3)" by (metis surj_pair)
      have e3: "extends P w2 w3" by (rule locate_extends [OF lo]) (rule assms)+
      from None assms(1) p pl Inr lo have "w' = w3"
        by (cases r2; cases r3) (auto simp: AddInterface_setup_def)
      with f1 e2 e3 show ?thesis by (auto simp: extends_def)
    qed
  qed
  then show "\<exists>cs. trace w' = trace w @ cs \<and> list_all P cs" and "iFaces (ns w') = iFaces (ns w)"
    and "isDefault (ns w') = isDefault (ns w)" and "nlHandle (ns w') = nlHandle (ns w)"
    and "path (ns w') = path (ns w)" and "loV6Enabled (ns w') = loV6Enabled (ns w)"
    and "length (heap w') = Suc (length (heap w))"
    by simp_all
qed

lemma setup_error_not_config:
  "AddInterface_setup K s pfx os w = ((Inl e, d), w') \<Longrightarrow> e \<noteq> ConfigError m x"
  unfolding AddInterface_setup_def AddInterface_prepare_def AddInterface_place_def
    AddInterface_locate_def Let_def call_defs nlcall_def LinkByName_def GetFromPath_def
  by (auto split: if_splits prod.splits option.splits sum.splits)

lemma AddInterface_ConfigError_inv:
  assumes "AddInterface K s pfx os w = (Some (ConfigError m e), w')"
  shows "\<exists>p iface d w1 w2.
     AddInterface_setup K s pfx os w = ((Inr (p, iface), d), w1) \<and>
     configureInterface K (nlHandle (ns w1)) iface (heap w1 ! p) w1 = (Some (ConfigError m e), w2) \<and>
     w' = runDeferred d (AddInterface_rollback K (nlHandle (ns w1)) iface (heap w1 ! p) w2)"
proof -
  obtain r d w1 where su: "AddInterface_setup K s pfx os w = ((r, d), w1)"
    by (metis surj_pair)
  show ?thesis
  proof (cases r)
    case (Inl e')
    with su assms setup_error_not_config [of K s pfx os w e' d w1 m e] show ?thesis
      by (simp add: AddInterface_def)
  next
    case (Inr pi)
    obtain p iface where pi: "pi = (p, iface)" by force
    from su assms Inr pi show ?thesis
      unfolding AddInterface_def AddInterface_configure_def Let_def
      by (auto split: prod.splits option.splits)
  qed
qed


lemma setInterfaceName_extends:
  assumes "setInterfaceName K nlh iface i w = (r, w')" and "\<And>h l n. P (CLinkSetName h l n)"
  shows "extends P w w'"
  using assms unfolding setInterfaceName_def call_defs nlcall_def by auto

lemma setInterfaceMAC_extends:
  assumes "setInterfaceMAC K nlh iface i w = (r, w')" and "\<And>h l n. P (CLinkSetHardwareAddr h l n)"
  shows "extends P w w'"
  using assms unfolding setInterfaceMAC_def call_defs nlcall_def by (auto split: option.splits)

lemma checkRouteConflict_extends:
  assumes "checkRouteConflict K nlh a f w = (r, w')" and "\<And>h f. P (CRouteList h f)"
  shows "extends P w w'"
  using checkRouteConflict_conflict(1) [OF assms(1)] assms(2) by auto

lemma setInterfaceIP_extends:
  assumes "setInterfaceIP K nlh iface i w = (r, w')" and "\<And>h f. P (CRouteList h f)"
    and "\<And>h l a. addr_Flags a = 0 \<Longrightarrow> P (CAddrAdd h l a)"
  shows "extends P w w'"
proof (cases "Address i")
  case None
  with assms(1) show ?thesis by (simp add: setInterfaceIP_def)
next
  case (Some a)
  obtain r1 w1 where c: "checkRouteConflict K nlh a FAMILY_V4 w = (r1, w1)" by (metis surj_pair)
  have e1: "extends P w w1" by (rule checkRouteConflict_extends [OF c]) (rule assms)
  from assms Some c have "extends P w1 w'"
    unfolding setInterfaceIP_def call_defs nlcall_def by (auto split: option.splits)
  with e1 show ?thesis by (rule extends_trans)
qed

lemma setInterfaceIPv6_extends:
  assumes "setInterfaceIPv6 K nlh iface i w = (r, w')" and "\<And>h f. P (CRouteList h f)"
    and "\<And>h l a. addr_Flags a = IFA_F_NODAD \<Longrightarrow> P (CAddrAdd h l a)"
    and "\<And>p n e. P (CsetIPv6 p n e)"
  shows "extends P w w'"
proof (cases "AddressIPv6 i")
  case None
  with assms(1) show ?thesis by (simp add: setInterfaceIPv6_def)
next
  case (Some a)
  obtain r1 w1 where c: "checkRouteConflict K nlh a FAMILY_V6 w = (r1, w1)" by (metis surj_pair)
  have e1: "extends P w w1" by (rule checkRouteConflict_extends [OF c]) (rule assms)
  from assms Some c have "extends P w1 w'"
    unfolding setInterfaceIPv6_def call_defs nlcall_def by (auto split: option.splits)
  with e1 show ?thesis by (rule extends_trans)
qed

lemma setInterfaceMaster_extends:
  assumes "setInterfaceMaster K nlh iface i w = (r, w')" and "\<And>h l n. P (CLinkSetMaster h l n)"
  shows "extends P w w'"
  using assms unfolding setInterfaceMaster_def call_defs nlcall_def by (auto split: if_splits)

lemma linkLocalLoop_extends:
  assumes "linkLocalLoop K nlh iface lls w = (r, w')"
    and "\<And>h l a. addr_Flags a = 0 \<Longrightarrow> P (CAddrAdd h l a)"
  shows "extends P w w'"
  using assms
proof (induction lls arbitrary: w)
  case Nil
  then show ?case by simp
next
  case (Cons ll lls)
  let ?c = "CAddrAdd nlh iface \<lparr>addr_IPNet = ll, addr_Label = [], addr_Flags = 0\<rparr>"
  have e1: "extends P w (emit ?c w)" by (auto intro: Cons.prems(2))
  show ?case
  proof (cases "answer K (trace w) ?c")
    case None
    with Cons.prems(1) have "linkLocalLoop K nlh iface lls (emit ?c w) = (r, w')"
      by (simp add: call_defs nlcall_def)
    then have "extends P (emit ?c w) w'" by (rule Cons.IH) (rule Cons.prems(2))
    with e1 show ?thesis by (rule extends_trans)
  next
    case (Some e)
    with Cons.prems(1) have "w' = emit ?c w" by (simp add: call_defs nlcall_def)
    with e1 show ?thesis by simp
  qed
qed

lemma setInterfaceLinkLocalIPs_extends:
  assumes "setInterfaceLinkLocalIPs K nlh iface i w = (r, w')"
    and "\<And>h l a. addr_Flags a = 0 \<Longrightarrow> P (CAddrAdd h l a)"
  shows "extends P w w'"
  using assms linkLocalLoop_extends unfolding setInterfaceLinkLocalIPs_def by blast

lemma configureInterface_unfold:
  "configureInterface K nlh iface i w =
     (case setInterfaceName K nlh iface i w of
        (Some err, w1) \<Rightarrow> (Some (ConfigError (ErrRenaming (attrs_Name iface) (DstName i)) err), w1)
      | (None, w1) \<Rightarrow>
     (case setInterfaceMAC K nlh iface i w1 of
        (Some err, w2) \<Rightarrow> (Some (ConfigError (ErrSettingMAC (attrs_Name iface) (MacAddress i)) err), w2)
      | (None, w2) \<Rightarrow>
     (case setInterfaceIP K nlh iface i w2 of
        (Some err, w3) \<Rightarrow> (Some (ConfigError (ErrSettingIP (attrs_Name iface) (Address i)) err), w3)
      | (None, w3) \<Rightarrow>
     (case setInterfaceIPv6 K nlh iface i w3 of
        (Some err, w4) \<Rightarrow> (Some (ConfigError (ErrSettingIPv6 (attrs_Name iface) (AddressIPv6 i)) err), w4)
      | (None, w4) \<Rightarrow>
     (case setInterfaceMaster K nlh iface i w4 of
        (Some err, w5) \<Rightarrow> (Some (ConfigError (ErrSettingMaster (attrs_Name iface) (DstMaster i)) err), w5)
      | (None, w5) \<Rightarrow>
     (case setInterfaceLinkLocalIPs K nlh iface i w5 of
        (Some err, w6) \<Rightarrow>
          (Some (ConfigError (ErrSettingLinkLocal (attrs_Name iface) (LinkLocalAddresses i)) err), w6)
      | (None, w6) \<Rightarrow> (None, w6)))))))"
  unfolding configureInterface_def ifaceConfigurators_def Let_def
  by (simp split: prod.splits option.splits)

lemma configureInterface_extends:
  assumes "configureInterface K nlh iface i w = (r, w')"
    and "\<And>h l n. P (CLinkSetName h l n)" and "\<And>h l n. P (CLinkSetHardwareAddr h l n)"
    and "\<And>h f. P (CRouteList h f)" and "\<And>h l a. P (CAddrAdd h l a)"
    and "\<And>p n e. P (CsetIPv6 p n e)" and "\<And>h l n. P (CLinkSetMaster h l n)"
  shows "extends P w w'"
proof -
  obtain r1 w1 where s1: "setInterfaceName K nlh iface i w = (r1, w1)" by (metis surj_pair)
  obtain r2 w2 where s2: "setInterfaceMAC K nlh iface i w1 = (r2, w2)" by (metis surj_pair)
  obtain r3 w3 where s3: "setInterfaceIP K nlh iface i w2 = (r3, w3)" by (metis surj_pair)
  obtain r4 w4 where s4: "setInterfaceIPv6 K nlh iface i w3 = (r4, w4)" by (metis surj_pair)
  obtain r5 w5 where s5: "setInterfaceMaster K nlh iface i w4 = (r5, w5)" by (metis surj_pair)
  obtain r6 w6 where s6: "setInterfaceLinkLocalIPs K nlh iface i w5 = (r6, w6)" by (metis surj_pair)
  have e1: "extends P w w1" by (rule setInterfaceName_extends [OF s1]) (rule assms)
  have e2: "extends P w1 w2" by (rule setInterfaceMAC_extends [OF s2]) (rule assms)
  have e3: "extends P w2 w3" by (rule setInterfaceIP_extends [OF s3]) (rule assms)+
  have e4: "extends P w3 w4" by (rule setInterfaceIPv6_extends [OF s4]) (rule assms)+
  have e5: "extends P w4 w5" by (rule setInterfaceMaster_extends [OF s5]) (rule assms)
  have e6: "extends P w5 w6" by (rule setInterfaceLinkLocalIPs_extends [OF s6]) (rule assms)
  have "w' = w1 \<or> w' = w2 \<or> w' = w3 \<or> w' = w4 \<or> w' = w5 \<or> w' = w6"
    using assms(1) s1 s2 s3 s4 s5 s6 unfolding configureInterface_unfold
    by (auto split: option.splits)
  with e1 e2 e3 e4 e5 e6 show ?thesis
    by (meson extends_trans)
qed

lemma setInterfaceIP_conflict_address:
  "setInterfaceIP K nlh iface i w = (Some (RouteConflict a route), w') \<Longrightarrow> Address i = Some a"
  unfolding setInterfaceIP_def checkRouteConflict_def RouteList_def call_defs nlcall_def
  by (auto split: option.splits prod.splits sum.splits dest: routeLoop_Some)

lemma setInterfaceIPv6_conflict_address:
  "setInterfaceIPv6 K nlh iface i w = (Some (RouteConflict a route), w') \<Longrightarrow> AddressIPv6 i = Some a"
  unfolding setInterfaceIPv6_def checkRouteConflict_def RouteList_def call_defs nlcall_def
  by (auto split: option.splits prod.splits sum.splits dest: routeLoop_Some)

lemma AddInterface_IP_conflict:
  assumes "AddInterface K s pfx os w = (Some (ConfigError (ErrSettingIP n x) (RouteConflict a route)), w')"
  shows "trace w' = trace w @ new_calls w w' \<and> \<not> list_ex addsAddress (new_calls w w')"
proof -
  let ?P = "\<lambda>c. \<not> addsAddress c"
  from AddInterface_ConfigError_inv [OF assms] obtain p iface d w1 w2 where
    su: "AddInterface_setup K s pfx os w = ((Inr (p, iface), d), w1)" and
    co: "configureInterface K (nlHandle (ns w1)) iface (heap w1 ! p) w1 =
           (Some (ConfigError (ErrSettingIP n x) (RouteConflict a route)), w2)" and
    w': "w' = runDeferred d (AddInterface_rollback K (nlHandle (ns w1)) iface (heap w1 ! p) w2)"
    by blast
  let ?nlh = "nlHandle (ns w1)" and ?i = "heap w1 ! p"
  from co obtain v1 v2 where
    s1: "setInterfaceName K ?nlh iface ?i w1 = (None, v1)" and
    s2: "setInterfaceMAC K ?nlh iface ?i v1 = (None, v2)" and
    s3: "setInterfaceIP K ?nlh iface ?i v2 = (Some (RouteConflict a route), w2)"
    unfolding configureInterface_unfold by (auto split: prod.splits option.splits)
  have a: "Address ?i = Some a" using s3 by (rule setInterfaceIP_conflict_address)
  have "w2 = emit (CRouteList ?nlh FAMILY_V4) v2"
    using setInterfaceIP_conflict [OF a s3] by blast
  then have e3: "extends ?P v2 w2" by (auto simp: addsAddress_def)
  have e0: "\<exists>cs. trace w1 = trace w @ cs \<and> list_all ?P cs"
    by (rule setup_frame(1) [OF su]) (simp_all add: addsAddress_def)
  have e1: "extends ?P w1 v1" by (rule setInterfaceName_extends [OF s1]) (simp add: addsAddress_def)
  have e2: "extends ?P v1 v2" by (rule setInterfaceMAC_extends [OF s2]) (simp add: addsAddress_def)
  have e4: "extends ?P w2 (AddInterface_rollback K ?nlh iface ?i w2)"
    by (rule rollback_extends) (simp_all add: addsAddress_def)
  have e5: "extends ?P (AddInterface_rollback K ?nlh iface ?i w2) w'"
    unfolding w' by (rule runDeferred_extends) (simp add: addsAddress_def)
  from e0 e1 e2 e3 e4 e5 have "\<exists>cs. trace w' = trace w @ cs \<and> list_all ?P cs"
    by (auto simp: extends_def)
  then show ?thesis
    by (auto simp: new_calls_def list_ex_iff list_all_iff)
qed


lemma AddInterface_IPv6_conflict:
  assumes "AddInterface K s pfx os w = (Some (ConfigError (ErrSettingIPv6 n x) (RouteConflict a route)), w')"
  shows "trace w' = trace w @ new_calls w w' \<and> \<not> list_ex addsIPv6 (new_calls w w')"
proof -
  let ?P = "\<lambda>c. \<not> addsIPv6 c"
  from AddInterface_ConfigError_inv [OF assms] obtain p iface d w1 w2 where
    su: "AddInterface_setup K s pfx os w = ((Inr (p, iface), d), w1)" and
    co: "configureInterface K (nlHandle (ns w1)) iface (heap w1 ! p) w1 =
           (Some (ConfigError (ErrSettingIPv6 n x) (RouteConflict a route)), w2)" and
    w': "w' = runDeferred d (AddInterface_rollback K (nlHandle (ns w1)) iface (heap w1 ! p) w2)"
    by blast
  let ?nlh = "nlHandle (ns w1)" and ?i = "heap w1 ! p"
  from co obtain v1 v2 v3 where
    s1: "setInterfaceName K ?nlh iface ?i w1 = (None, v1)" and
    s2: "setInterfaceMAC K ?nlh iface ?i v1 = (None, v2)" and
    s3: "setInterfaceIP K ?nlh iface ?i v2 = (None, v3)" and
    s4: "setInterfaceIPv6 K ?nlh iface ?i v3 = (Some (RouteConflict a route), w2)"
    unfolding configureInterface_unfold by (auto split: prod.splits option.splits)
  have a: "AddressIPv6 ?i = Some a" using s4 by (rule setInterfaceIPv6_conflict_address)
  have "w2 = emit (CRouteList ?nlh FAMILY_V6) v3"
    using setInterfaceIPv6_conflict [OF a s4] by blast
  then have e4: "extends ?P v3 w2" by (auto simp: addsIPv6_def)
  have e0: "\<exists>cs. trace w1 = trace w @ cs \<and> list_all ?P cs"
    by (rule setup_frame(1) [OF su]) (simp_all add: addsIPv6_def)
  have e1: "extends ?P w1 v1" by (rule setInterfaceName_extends [OF s1]) (simp add: addsIPv6_def)
  have e2: "extends ?P v1 v2" by (rule setInterfaceMAC_extends [OF s2]) (simp add: addsIPv6_def)
  have e3: "extends ?P v2 v3"
    by (rule setInterfaceIP_extends [OF s3]) (simp_all add: addsIPv6_def IFA_F_NODAD_def)
  have e5: "extends ?P w2 (AddInterface_rollback K ?nlh iface ?i w2)"
    by (rule rollback_extends) (simp_all add: addsIPv6_def)
  have e6: "extends ?P (AddInterface_rollback K ?nlh iface ?i w2) w'"
    unfolding w' by (rule runDeferred_extends) (simp add: addsIPv6_def)
  from e0 e1 e2 e3 e4 e5 e6 have "\<exists>cs. trace w' = trace w @ cs \<and> list_all ?P cs"
    by (auto simp: extends_def)
  then show ?thesis
    by (auto simp: new_calls_def list_ex_iff list_all_iff)
qed

lemma rollback_emits:
  "AddInterface_rollback K nlh iface i w = emits (rollbackCalls K nlh iface i (trace w)) w"
  unfolding AddInterface_rollback_def rollbackCalls_def Let_def call_defs nlcall_def
  by (auto simp: emit_def emits_def split: option.splits)

lemma runDeferred_emits:
  "runDeferred d w = emits (closeCalls d) w"
  by (simp add: runDeferred_def closeCalls_def emit_def emits_def split: option.splits)

lemma linkUpLoop_done:
  "err = None \<or> 3 \<le> cnt \<Longrightarrow> linkUpLoop K nlh iface err cnt w = (err, w)"
  by (auto simp: linkUpLoop.simps)

lemma linkUpLoop_step:
  "err \<noteq> None \<Longrightarrow> cnt < 3 \<Longrightarrow>
     linkUpLoop K nlh iface err cnt w =
       linkUpLoop K nlh iface
         (map_option Kernel
            (answer K (trace w @ [CLog Debugf ''retrying link setup because of: %v'', CSleep 10])
               (CLinkSetUp nlh iface)))
         (Suc cnt)
         (emits [CLog Debugf ''retrying link setup because of: %v'', CSleep 10,
                 CLinkSetUp nlh iface] w)"
  by (subst linkUpLoop.simps) (simp add: LinkSetUp_def nlcall_def emit_def emits_def)

lemma retryCalls_0: "retryCalls nlh iface 0 = []"
  by (simp add: retryCalls_def)

lemma retryCalls_Suc:
  "retryCalls nlh iface (Suc k) =
     retryCalls nlh iface k @
       [CLinkSetUp nlh iface, CLog Debugf ''retrying link setup because of: %v'', CSleep 10]"
  unfolding retryCalls_def by (induction k) simp_all

lemma linkUpLoop_from:
  assumes "cnt \<le> 3"
  shows "linkUpLoop K nlh iface
           (map_option Kernel (answer K (trace w @ retryCalls nlh iface cnt) (CLinkSetUp nlh iface)))
           cnt (emits (retryCalls nlh iface cnt @ [CLinkSetUp nlh iface]) w) =
         (if answer K (trace w @ retryCalls nlh iface cnt) (CLinkSetUp nlh iface) = None \<or> cnt = 3
          then (map_option Kernel (answer K (trace w @ retryCalls nlh iface cnt) (CLinkSetUp nlh iface)),
                emits (retryCalls nlh iface cnt @ [CLinkSetUp nlh iface]) w)
          else linkUpLoop K nlh iface
           (map_option Kernel (answer K (trace w @ retryCalls nlh iface (Suc cnt)) (CLinkSetUp nlh iface)))
           (Suc cnt) (emits (retryCalls nlh iface (Suc cnt) @ [CLinkSetUp nlh iface]) w))"
proof (cases "answer K (trace w @ retryCalls nlh iface cnt) (CLinkSetUp nlh iface) = None \<or> cnt = 3")
  case True
  then show ?thesis by (auto simp: linkUpLoop_done)
next
  case False
  with assms have "cnt < 3" by simp
  with False show ?thesis
    by (auto simp: linkUpLoop_step retryCalls_Suc)
qed

lemma linkUp_unroll:
  "linkUp K nlh iface w =
     (let up = CLinkSetUp nlh iface; att = (\<lambda>j. answer K (trace w @ retryCalls nlh iface j) up) in
      if att 0 = None then (None, emits (retryCalls nlh iface 0 @ [up]) w)
      else if att 1 = None then (None, emits (retryCalls nlh iface 1 @ [up]) w)
      else if att 2 = None then (None, emits (retryCalls nlh iface 2 @ [up]) w)
      else (map_option Kernel (att 3), emits (retryCalls nlh iface 3 @ [up]) w))"
proof -
  have start: "linkUp K nlh iface w =
      linkUpLoop K nlh iface
        (map_option Kernel (answer K (trace w @ retryCalls nlh iface 0) (CLinkSetUp nlh iface)))
        0 (emits (retryCalls nlh iface 0 @ [CLinkSetUp nlh iface]) w)"
    by (simp add: linkUp_def LinkSetUp_def nlcall_def emit_def emits_def retryCalls_0)
  let ?att = "\<lambda>j. answer K (trace w @ retryCalls nlh iface j) (CLinkSetUp nlh iface)"
  let ?S = "\<lambda>j. linkUpLoop K nlh iface (map_option Kernel (?att j)) j
                 (emits (retryCalls nlh iface j @ [CLinkSetUp nlh iface]) w)"
  let ?R = "\<lambda>j. (map_option Kernel (?att j), emits (retryCalls nlh iface j @ [CLinkSetUp nlh iface]) w)"
  have stop: "?S j = ?R j" if "j \<le> 3" "?att j = None \<or> j = 3" for j
    using linkUpLoop_from [OF that(1), of K nlh iface w] that(2) by simp
  have step: "?S j = ?S (Suc j)" if "j < 3" "?att j \<noteq> None" for j
    using linkUpLoop_from [of j K nlh iface w] that by simp
  show ?thesis
  proof (cases "?att 0 = None")
    case True
    have "linkUp K nlh iface w = ?R 0" unfolding start by (rule stop) (use True in simp_all)
    with True show ?thesis by (auto simp: Let_def)
  next
    case a0: False
    have s1: "linkUp K nlh iface w = ?S 1" unfolding start using step [of 0] a0 by simp
    show ?thesis
    proof (cases "?att 1 = None")
      case True
      have "?S 1 = ?R 1" by (rule stop) (use True in simp_all)
      with s1 a0 True show ?thesis by (auto simp: Let_def)
    next
      case a1: False
      have s2: "linkUp K nlh iface w = ?S 2" unfolding s1 using step [of 1] a1
        by (simp add: numeral_2_eq_2)
      show ?thesis
      proof (cases "?att 2 = None")
        case True
        have "?S 2 = ?R 2" by (rule stop) (use True in simp_all)
        with s2 a0 a1 True show ?thesis by (auto simp: Let_def)
      next
        case a2: False
        have s3: "linkUp K nlh iface w = ?S 3" unfolding s2 using step [of 2] a2
          by (simp add: numeral_3_eq_3 numeral_2_eq_2)
        have "?S 3 = ?R 3" by (rule stop) simp_all
        with s3 a0 a1 a2 show ?thesis by (auto simp: Let_def)
      qed
    qed
  qed
qed

lemma removeLoop_split:
  "index \<le> length xs \<Longrightarrow> removeLoop xs p index = take index xs @ remove1 p (drop index xs)"
proof (induction xs p index rule: removeLoop.induct)
  case (1 xs p index)
  show ?case
  proof (cases "index < length xs")
    case False
    with 1(2) show ?thesis by (subst removeLoop.simps) simp
  next
    case True
    then have d: "drop index xs = xs ! index # drop (Suc index) xs"
      by (simp add: Cons_nth_drop_Suc)
    show ?thesis
    proof (cases "xs ! index = p")
      case True
      with \<open>index < length xs\<close> d show ?thesis by (subst removeLoop.simps) simp
    next
      case False
      with \<open>index < length xs\<close> have "removeLoop xs p index = removeLoop xs p (index + 1)"
        by (subst removeLoop.simps) simp
      also have "\<dots> = take (index + 1) xs @ remove1 p (drop (index + 1) xs)"
        using 1(1) [OF \<open>index < length xs\<close> False] \<open>index < length xs\<close> by simp
      also have "\<dots> = take index xs @ remove1 p (drop index xs)"
        using False d \<open>index < length xs\<close> by (simp add: take_Suc_conv_app_nth)
      finally show ?thesis .
    qed
  qed
qed

lemma removeLoop_remove1: "removeLoop xs p 0 = remove1 p xs"
  by (simp add: removeLoop_split)

lemma processInterfaceOptions_srcName [simp]:
  "srcName (processInterfaceOptions i os) = srcName i"
  unfolding processInterfaceOptions_def
proof (induction os arbitrary: i)
  case Nil
  then show ?case by simp
next
  case (Cons o1 os)
  show ?case by (cases o1) (simp_all add: Cons.IH)
qed

lemma heap_update_iface:
  "heap (update_iface p f w) = (heap w)[p := f (heap w ! p)]"
  by (simp add: update_iface_def)

lemma prepare_step:
  assumes "AddInterface_prepare s pfx os w = (r, w1)"
  shows "length (heap w1) = Suc (length (heap w))"
    and "take (length (heap w)) (heap w1) = heap w"
    and "srcName (heap w1 ! length (heap w)) = s"
    and "isDefault (ns w1) = isDefault (ns w)"
    and "\<And>e. r = Inl e \<Longrightarrow> (\<exists>m s'. e = MasterNotFound m s') \<and> nextIfIndex (ns w1) = nextIfIndex (ns w)"
    and "\<And>p. r = Inr p \<Longrightarrow> p = length (heap w) \<and>
           (if isDefault (ns w)
            then dstName (heap w1 ! p) = s \<and> nextIfIndex (ns w1) = nextIfIndex (ns w)
            else dstName (heap w1 ! p) = Sprintf_sd pfx (nextIfIndex (ns w) pfx) \<and>
                 nextIfIndex (ns w1) = (nextIfIndex (ns w))(pfx := nextIfIndex (ns w) pfx + 1))"
  using assms
  unfolding AddInterface_prepare_def AddInterface_name_def Let_def
  by (auto simp: heap_update_iface nth_append split: if_splits)


lemma extends_emits: "list_all P cs \<Longrightarrow> extends P w (emits cs w)"
  by (simp add: extends_def)

lemma linkUp_extends:
  assumes "linkUp K nlh iface w = (r, w')"
    and "\<And>h l. P (CLinkSetUp h l)" and "\<And>lv m. P (CLog lv m)" and "\<And>n. P (CSleep n)"
  shows "extends P w w'"
proof -
  have "list_all P (retryCalls nlh iface k @ [CLinkSetUp nlh iface])" for k
    by (induction k) (simp_all add: retryCalls_0 retryCalls_Suc assms(2-4))
  then have "extends P w (emits (retryCalls nlh iface k @ [CLinkSetUp nlh iface]) w)" for k
    by (rule extends_emits)
  with assms(1) show ?thesis
    unfolding linkUp_unroll Let_def by (auto split: if_splits)
qed

lemma linkUp_result: "linkUp K nlh iface w = (Some e, w') \<Longrightarrow> \<exists>k. e = Kernel k"
  unfolding linkUp_unroll Let_def by (auto split: if_splits)

lemma routeAddLoop_extends:
  assumes "routeAddLoop K nlh iface rs w = (r, w')" and "\<And>h x. P (CRouteAdd h x)"
  shows "extends P w w'"
  using assms(1)
proof (induction rs arbitrary: w)
  case Nil
  then show ?case by simp
next
  case (Cons a rs)
  let ?c = "CRouteAdd nlh \<lparr>Scope = SCOPE_LINK, LinkIndex = attrs_Index iface, Dst = a\<rparr>"
  have e1: "extends P w (emit ?c w)" by (auto intro: assms(2))
  show ?case
  proof (cases "answer K (trace w) ?c")
    case None
    with Cons.prems have "routeAddLoop K nlh iface rs (emit ?c w) = (r, w')"
      by (simp add: call_defs nlcall_def)
    then have "extends P (emit ?c w) w'" by (rule Cons.IH)
    with e1 show ?thesis by (rule extends_trans)
  next
    case (Some e)
    with Cons.prems have "w' = emit ?c w" by (simp add: call_defs nlcall_def)
    with e1 show ?thesis by simp
  qed
qed

lemma setInterfaceRoutes_extends:
  assumes "setInterfaceRoutes K nlh iface i w = (r, w')" and "\<And>h x. P (CRouteAdd h x)"
  shows "extends P w w'"
  using assms routeAddLoop_extends unfolding setInterfaceRoutes_def by blast

lemma configure_frame:
  assumes "AddInterface_configure K p iface w = (r, w')"
  shows "heap w' = heap w" and "nextIfIndex (ns w') = nextIfIndex (ns w)"
    and "isDefault (ns w') = isDefault (ns w)" and "r \<noteq> Some (MasterNotFound m s)"
    and "path (ns w') = path (ns w)" and "nlHandle (ns w') = nlHandle (ns w)"
proof -
  let ?nlh = "nlHandle (ns w)" and ?i = "heap w ! p"
  obtain r1 w1 where c: "configureInterface K ?nlh iface ?i w = (r1, w1)" by (metis surj_pair)
  have e1: "extends (\<lambda>c. True) w w1" by (rule configureInterface_extends [OF c]) simp_all
  have "heap w' = heap w \<and> nextIfIndex (ns w') = nextIfIndex (ns w) \<and>
    isDefault (ns w') = isDefault (ns w) \<and> r \<noteq> Some (MasterNotFound m s) \<and>
    path (ns w') = path (ns w) \<and> nlHandle (ns w') = nlHandle (ns w)"
  proof (cases r1)
    case (Some e)
    have "extends (\<lambda>c. True) w1 (AddInterface_rollback K ?nlh iface ?i w1)"
      by (rule rollback_extends) simp_all
    moreover from c Some have "\<exists>msg x. e = ConfigError msg x"
      unfolding configureInterface_unfold by (auto split: prod.splits option.splits)
    ultimately show ?thesis
      using assms c Some e1 unfolding AddInterface_configure_def Let_def
      by (auto simp: extends_def)
  next
    case None
    obtain r2 w2 where l: "linkUp K ?nlh iface w1 = (r2, w2)" by (metis surj_pair)
    have e2: "extends (\<lambda>c. True) w1 w2" by (rule linkUp_extends [OF l]) simp_all
    obtain r3 w3 where ro: "setInterfaceRoutes K ?nlh iface ?i w2 = (r3, w3)" by (metis surj_pair)
    have e3: "extends (\<lambda>c. True) w2 w3" by (rule setInterfaceRoutes_extends [OF ro]) simp_all
    from assms c None l ro e1 e2 e3 show ?thesis
      unfolding AddInterface_configure_def Let_def
      by (cases r2; cases r3) (auto simp: extends_def checkLoV6_def)
  qed
  then show "heap w' = heap w" and "nextIfIndex (ns w') = nextIfIndex (ns w)"
    and "isDefault (ns w') = isDefault (ns w)" and "r \<noteq> Some (MasterNotFound m s)"
    and "path (ns w') = path (ns w)" and "nlHandle (ns w') = nlHandle (ns w)"
    by simp_all
qed

lemma place_result: "AddInterface_place K p w = ((Some e, d), w') \<Longrightarrow> e \<noteq> MasterNotFound m s"
  unfolding AddInterface_place_def Let_def call_defs nlcall_def LinkByName_def GetFromPath_def
  by (auto split: if_splits prod.splits option.splits sum.splits)

lemma locate_result: "AddInterface_locate K p w = (Inl e, w') \<Longrightarrow> e \<noteq> MasterNotFound m s"
  unfolding AddInterface_locate_def Let_def call_defs nlcall_def LinkByName_def
  by (auto split: if_splits prod.splits option.splits sum.splits)

lemma AddInterface_step:
  assumes "AddInterface K s pfx os w = (r, w')"
  shows "length (heap w') = Suc (length (heap w))"
    and "take (length (heap w)) (heap w') = heap w"
    and "srcName (heap w' ! length (heap w)) = s"
    and "isDefault (ns w') = isDefault (ns w)"
    and "\<not> allocated r \<Longrightarrow> nextIfIndex (ns w') = nextIfIndex (ns w)"
    and "allocated r \<Longrightarrow>
           (if isDefault (ns w)
            then dstName (heap w' ! length (heap w)) = s \<and> nextIfIndex (ns w') = nextIfIndex (ns w)
            else dstName (heap w' ! length (heap w)) = Sprintf_sd pfx (nextIfIndex (ns w) pfx) \<and>
                 nextIfIndex (ns w') = (nextIfIndex (ns w))(pfx := nextIfIndex (ns w) pfx + 1))"
proof -
  let ?goal = "\<lambda>w'. length (heap w') = Suc (length (heap w)) \<and>
     take (length (heap w)) (heap w') = heap w \<and>
     srcName (heap w' ! length (heap w)) = s \<and>
     isDefault (ns w') = isDefault (ns w) \<and>
     (\<not> allocated r \<longrightarrow> nextIfIndex (ns w') = nextIfIndex (ns w)) \<and>
     (allocated r \<longrightarrow>
           (if isDefault (ns w)
            then dstName (heap w' ! length (heap w)) = s \<and> nextIfIndex (ns w') = nextIfIndex (ns w)
            else dstName (heap w' ! length (heap w)) = Sprintf_sd pfx (nextIfIndex (ns w) pfx) \<and>
                 nextIfIndex (ns w') = (nextIfIndex (ns w))(pfx := nextIfIndex (ns w) pfx + 1)))"
  obtain r1 w1 where pr: "AddInterface_prepare s pfx os w = (r1, w1)" by (metis surj_pair)
  note P = prepare_step [OF pr]
  have "?goal w'"
  proof (cases r1)
    case (Inl e)
    with pr assms have "r = Some e" "w' = w1"
      by (simp_all add: AddInterface_def AddInterface_setup_def runDeferred_def)
    with P(1-4) P(5) [OF Inl] show ?thesis by (auto simp: allocated_def)
  next
    case (Inr p)
    note Q = P(6) [OF Inr]
    obtain r2 d w2 where pl: "AddInterface_place K p w1 = ((r2, d), w2)" by (metis surj_pair)
    have e2: "extends (\<lambda>c. True) w1 w2" by (rule place_extends [OF pl]) simp_all
    show ?thesis
    proof (cases r2)
      case (Some e)
      with pr Inr pl assms have r: "r = Some e" and w': "w' = runDeferred d w2"
        by (simp_all add: AddInterface_def AddInterface_setup_def)
      have "extends (\<lambda>c. True) w2 w'" unfolding w' by (rule runDeferred_extends) simp
      with e2 have "ns w' = ns w1" "heap w' = heap w1" by (simp_all add: extends_def)
      moreover have "allocated r" using place_result [OF pl [unfolded Some]] r
        by (auto simp: allocated_def split: error.splits)
      ultimately show ?thesis using P(1-4) Q by (auto split: if_splits)
    next
      case None
      obtain r3 w3 where lo: "AddInterface_locate K p w2 = (r3, w3)" by (metis surj_pair)
      have e3: "extends (\<lambda>c. True) w2 w3" by (rule locate_extends [OF lo]) simp_all
      show ?thesis
      proof (cases r3)
        case (Inl e)
        with pr Inr pl None lo assms have r: "r = Some e" and w': "w' = runDeferred d w3"
          by (simp_all add: AddInterface_def AddInterface_setup_def)
        have "extends (\<lambda>c. True) w3 w'" unfolding w' by (rule runDeferred_extends) simp
        with e2 e3 have "ns w' = ns w1" "heap w' = heap w1" by (simp_all add: extends_def)
        moreover have "allocated r" using locate_result [OF lo [unfolded Inl]] r
          by (auto simp: allocated_def split: error.splits)
        ultimately show ?thesis using P(1-4) Q by (auto split: if_splits)
      next
        case (Inr iface)
        obtain r4 w4 where co: "AddInterface_configure K p iface w3 = (r4, w4)" by (metis surj_pair)
        from pr \<open>r1 = Inr p\<close> pl None lo Inr co assms have r: "r = r4" and w': "w' = runDeferred d w4"
          by (simp_all add: AddInterface_def AddInterface_setup_def)
        have "extends (\<lambda>c. True) w4 w'" unfolding w' by (rule runDeferred_extends) simp
        with e2 e3 configure_frame(1-3) [OF co]
        have "heap w' = heap w1" "nextIfIndex (ns w') = nextIfIndex (ns w1)"
          "isDefault (ns w') = isDefault (ns w1)" by (simp_all add: extends_def)
        moreover have "allocated r" using configure_frame(4) [OF co] r
          by (auto simp: allocated_def split: error.splits option.splits)
        ultimately show ?thesis using P(1-4) Q by (auto split: if_splits)
      qed
    qed
  qed
  then show "length (heap w') = Suc (length (heap w))"
    and "take (length (heap w)) (heap w') = heap w"
    and "srcName (heap w' ! length (heap w)) = s"
    and "isDefault (ns w') = isDefault (ns w)"
    and "\<not> allocated r \<Longrightarrow> nextIfIndex (ns w') = nextIfIndex (ns w)"
    and "allocated r \<Longrightarrow>
           (if isDefault (ns w)
            then dstName (heap w' ! length (heap w)) = s \<and> nextIfIndex (ns w') = nextIfIndex (ns w)
            else dstName (heap w' ! length (heap w)) = Sprintf_sd pfx (nextIfIndex (ns w) pfx) \<and>
                 nextIfIndex (ns w') = (nextIfIndex (ns w))(pfx := nextIfIndex (ns w) pfx + 1))"
    by simp_all
qed


lemma digit_cases: "k < 10 \<Longrightarrow> k = 0 \<or> k = 1 \<or> k = 2 \<or> k = 3 \<or> k = 4 \<or> k = 5 \<or> k = 6 \<or> k = 7 \<or> k = 8 \<or> k = (9::nat)"
  by arith

lemma digit_nth:
  assumes "k < 10"
  shows "isDigit (''0123456789'' ! k)" and "digitValue (''0123456789'' ! k) = k"
    and "''0123456789'' ! k \<noteq> CHR ''-''"
  using digit_cases [OF assms]
  by (auto simp: isDigit_def digitValue_def)

lemma decimal_digits: "list_all isDigit (decimal n)" and decimal_nonempty: "decimal n \<noteq> []"
  and decimal_value: "decimalValue (decimal n) = n"
proof -
  have "list_all isDigit (decimal n) \<and> decimal n \<noteq> [] \<and> decimalValue (decimal n) = n"
  proof (induction n rule: decimal.induct)
    case (1 n)
    show ?case
    proof (cases "n < 10")
      case True
      then show ?thesis
        by (subst (1 2 3) decimal.simps) (simp add: digit_nth decimalValue_def)
    next
      case False
      have m: "n mod 10 < 10" by simp
      from 1 [OF False] False show ?thesis
        by (subst (1 2 3) decimal.simps) (simp add: digit_nth [OF m] decimalValue_def)
    qed
  qed
  then show "list_all isDigit (decimal n)" and "decimal n \<noteq> []" and "decimalValue (decimal n) = n"
    by simp_all
qed

lemma decimal_inj: "decimal n = decimal m \<Longrightarrow> n = m"
  by (metis decimal_value)

lemma decimal_hd_not_minus: "hd (decimal n) \<noteq> CHR ''-''"
proof -
  have "isDigit (hd (decimal n))"
    using decimal_digits [of n] decimal_nonempty [of n] by (cases "decimal n") simp_all
  then show ?thesis by (auto simp: isDigit_def)
qed

lemma Sprintf_sd_inj: "Sprintf_sd s c = Sprintf_sd s c' \<Longrightarrow> c = c'"
proof -
  assume a: "Sprintf_sd s c = Sprintf_sd s c'"
  have neq: "CHR ''-'' # decimal x \<noteq> decimal y" for x y
    using decimal_hd_not_minus [of y] decimal_nonempty [of y] by (cases "decimal y") auto
  from a have "sint c = sint c'"
    unfolding Sprintf_sd_def using neq neq [symmetric]
    by (auto split: if_splits dest!: decimal_inj)
  then show ?thesis by (rule signed_word_eqI)
qed

lemma Sprintf_sd_nonneg:
  "n < 2 ^ 63 \<Longrightarrow> Sprintf_sd s (of_nat n) = s @ decimal n"
proof -
  assume "n < 2 ^ 63"
  then have "sint (of_nat n :: 64 word) = int n"
    by (simp add: signed_of_nat signed_take_bit_int_eq_self)
  then show ?thesis by (simp add: Sprintf_sd_def)
qed

lemma digit_suffix_unique:
  assumes "xs @ ds = ys @ es" and "list_all isDigit ds" and "list_all isDigit es"
    and "\<not> endsInDigit xs" and "\<not> endsInDigit ys"
  shows "xs = ys \<and> ds = es"
proof -
  have tw: "takeWhile isDigit (rev (zs @ fs)) = rev fs"
    if "list_all isDigit fs" "\<not> endsInDigit zs" for zs fs
  proof -
    have "takeWhile isDigit (rev zs) = []"
      using that(2) by (cases zs rule: rev_cases) (simp_all add: endsInDigit_def)
    moreover have "takeWhile isDigit (rev fs @ rev zs) = rev fs @ takeWhile isDigit (rev zs)"
      using that(1) by (intro takeWhile_append2) (simp add: list_all_iff)
    ultimately show ?thesis by simp
  qed
  from tw [OF assms(2,4)] tw [OF assms(3,5)] assms(1) have "ds = es" by simp
  with assms(1) show ?thesis by simp
qed

lemma names_differ:
  assumes "\<not> endsInDigit p" and "\<not> endsInDigit q" and "p \<noteq> q \<or> n \<noteq> m"
  shows "p @ decimal n \<noteq> q @ decimal m"
  using digit_suffix_unique [OF _ decimal_digits decimal_digits assms(1,2), of n m]
    assms(3) decimal_inj by blast


lemma allocations_0 [simp]: "allocations cs rs pfx 0 = 0"
  by (simp add: allocations_def)

lemma allocations_Cons:
  "allocations ((s, q, os) # cs) (r # rs) pfx (Suc j) =
     (if q = pfx \<and> allocated r then 1 else 0) + allocations cs rs pfx j"
  by (simp add: allocations_def)

lemma allocations_mono: "i \<le> j \<Longrightarrow> allocations cs rs pfx i \<le> allocations cs rs pfx j"
proof -
  assume "i \<le> j"
  then have "take j (zip cs rs) = take i (zip cs rs) @ drop i (take j (zip cs rs))"
    by (metis append_take_drop_id min.absorb1 take_take)
  then show ?thesis
    unfolding allocations_def by (metis filter_append le_add1 length_append)
qed

lemma allocations_le: "allocations cs rs pfx j \<le> length cs"
  unfolding allocations_def
  by (rule le_trans [OF length_filter_le]) simp

lemma allocations_Suc:
  assumes "i < length cs" "length rs = length cs" "fst (snd (cs ! i)) = pfx" "allocated (rs ! i)"
  shows "allocations cs rs pfx (Suc i) = Suc (allocations cs rs pfx i)"
  using assms unfolding allocations_def
  by (simp add: take_Suc_conv_app_nth)

lemma AddInterfaces_inv:
  assumes "AddInterfaces K cs w0 = (rs, w')"
  shows "length rs = length cs \<and>
     length (heap w') = length (heap w0) + length cs \<and>
     take (length (heap w0)) (heap w') = heap w0 \<and>
     isDefault (ns w') = isDefault (ns w0) \<and>
     (\<forall>q. nextIfIndex (ns w') q =
           (if isDefault (ns w0) then nextIfIndex (ns w0) q
            else nextIfIndex (ns w0) q + of_nat (allocations cs rs q (length cs)))) \<and>
     (\<forall>j s pfx os. j < length cs \<and> cs ! j = (s, pfx, os) \<longrightarrow>
        srcName (heap w' ! (length (heap w0) + j)) = s \<and>
        (allocated (rs ! j) \<longrightarrow>
           dstName (heap w' ! (length (heap w0) + j)) =
             (if isDefault (ns w0) then s
              else Sprintf_sd pfx (nextIfIndex (ns w0) pfx + of_nat (allocations cs rs pfx j)))))"
  using assms
proof (induction cs arbitrary: w0 rs)
  case Nil
  then show ?case by simp
next
  case (Cons c cs)
  obtain s0 q0 os0 where c: "c = (s0, q0, os0)" by (metis prod_cases3)
  obtain r w1 where a: "AddInterface K s0 q0 os0 w0 = (r, w1)" by (metis surj_pair)
  obtain rs1 where rest: "AddInterfaces K cs w1 = (rs1, w')" and rs: "rs = r # rs1"
    using Cons.prems c a by (auto split: prod.splits)
  note S = AddInterface_step [OF a]
  note IH = Cons.IH [OF rest]
  let ?n0 = "length (heap w0)"
  have len1: "length (heap w1) = Suc ?n0" by (rule S(1))
  have pre: "take (length (heap w1)) (heap w') = heap w1" using IH by simp
  have nth_old: "heap w' ! k = heap w1 ! k" if "k < Suc ?n0" for k
    using that pre len1 by (metis nth_take)
  have t0: "take ?n0 (heap w') = heap w0"
  proof -
    have "take ?n0 (heap w') = take ?n0 (take (length (heap w1)) (heap w'))"
      by (simp add: len1 min_def)
    then show ?thesis using pre S(2) by simp
  qed
  have def1: "isDefault (ns w1) = isDefault (ns w0)" by (rule S(4))
  have cnt1: "nextIfIndex (ns w1) q =
      (if isDefault (ns w0) then nextIfIndex (ns w0) q
       else nextIfIndex (ns w0) q + (if q0 = q \<and> allocated r then 1 else 0))" for q
    using S(5) S(6) by (cases "allocated r") (auto split: if_splits)
  have A: "length rs = length (c # cs)" using IH rs by simp
  have B: "length (heap w') = ?n0 + length (c # cs)" using IH len1 by simp
  have D: "isDefault (ns w') = isDefault (ns w0)" using IH def1 by simp
  have E: "nextIfIndex (ns w') q =
           (if isDefault (ns w0) then nextIfIndex (ns w0) q
            else nextIfIndex (ns w0) q + of_nat (allocations (c # cs) rs q (length (c # cs))))" for q
    using IH cnt1 [of q] def1 by (simp add: c rs allocations_Cons)
  have F: "srcName (heap w' ! (?n0 + j)) = s \<and>
        (allocated (rs ! j) \<longrightarrow>
           dstName (heap w' ! (?n0 + j)) =
             (if isDefault (ns w0) then s
              else Sprintf_sd pfx (nextIfIndex (ns w0) pfx + of_nat (allocations (c # cs) rs pfx j))))"
    if "j < length (c # cs)" "(c # cs) ! j = (s, pfx, os)" for j s pfx os
  proof (cases j)
    case 0
    with that c have eq: "s = s0" "pfx = q0" by simp_all
    have "heap w' ! ?n0 = heap w1 ! ?n0" by (rule nth_old) simp
    with 0 eq S(3) S(6) rs show ?thesis by (auto split: if_splits)
  next
    case (Suc k)
    with that have k: "k < length cs" "cs ! k = (s, pfx, os)" by simp_all
    from IH k have "srcName (heap w' ! (length (heap w1) + k)) = s \<and>
        (allocated (rs1 ! k) \<longrightarrow>
           dstName (heap w' ! (length (heap w1) + k)) =
             (if isDefault (ns w1) then s
              else Sprintf_sd pfx (nextIfIndex (ns w1) pfx + of_nat (allocations cs rs1 pfx k))))"
      by blast
    then show ?thesis
      using Suc len1 def1 cnt1 [of pfx] by (simp add: rs c allocations_Cons add.assoc)
  qed
  from A B t0 D E F show ?case by blast
qed

subsection \<open>The conflict test on networks\<close>

lemma Contains_wellFormed:
  assumes "wellFormed L n"
  shows "Contains n ip \<longleftrightarrow>
     length (norm4 ip) = L \<and>
     (\<forall>k<L. (IP n ! k) AND (Mask n ! k) = (norm4 ip ! k) AND (Mask n ! k))"
proof -
  from assms have "networkNumberAndMask n = (IP n, Mask n)"
    by (auto simp: wellFormed_def networkNumberAndMask_def To4_def split: option.splits if_splits)
  with assms show ?thesis
    by (auto simp: Contains_def norm4_def wellFormed_def Let_def list_all_iff)
qed

lemma norm4_wellFormed: "wellFormed L n \<Longrightarrow> norm4 (IP n) = IP n"
  by (auto simp: wellFormed_def norm4_def To4_def)

lemma Contains_self: "wellFormed L n \<Longrightarrow> Contains n (IP n)"
  by (simp add: Contains_wellFormed norm4_wellFormed) (simp add: wellFormed_def)

lemma and_sub:
  fixes x y m1 m2 :: byte
  assumes "m1 AND m2 = m1" and "x AND m2 = y AND m2"
  shows "x AND m1 = y AND m1"
proof -
  have "x AND m1 = (x AND m2) AND m1" using assms(1) by (metis and.assoc and.commute)
  also have "\<dots> = (y AND m2) AND m1" using assms(2) by simp
  also have "\<dots> = y AND m1" using assms(1) by (metis and.assoc and.commute)
  finally show ?thesis .
qed

lemma covers_sub:
  assumes A: "wellFormed L A" and B: "wellFormed L B"
    and sub: "list_all2 (\<lambda>x y. x AND y = x) (Mask A) (Mask B)"
    and c: "Contains A (IP B) \<or> Contains B (IP A)"
  shows "covers A B"
proof -
  have m: "Mask A ! k AND Mask B ! k = Mask A ! k" if "k < L" for k
    using sub that A by (auto simp: list_all2_conv_all_nth wellFormed_def)
  have ab: "IP A ! k AND Mask A ! k = IP B ! k AND Mask A ! k" if "k < L" for k
  proof -
    from c show ?thesis
    proof
      assume "Contains A (IP B)"
      with that show ?thesis
        by (simp add: Contains_wellFormed [OF A] norm4_wellFormed [OF B])
    next
      assume "Contains B (IP A)"
      with that have "IP B ! k AND Mask B ! k = IP A ! k AND Mask B ! k"
        by (simp add: Contains_wellFormed [OF B] norm4_wellFormed [OF A])
      from and_sub [OF m [OF that] this] show ?thesis by simp
    qed
  qed
  show ?thesis
    unfolding covers_def
  proof (intro allI impI)
    fix ip
    assume "Contains B ip"
    then have l: "length (norm4 ip) = L"
      and e: "\<And>k. k < L \<Longrightarrow> IP B ! k AND Mask B ! k = norm4 ip ! k AND Mask B ! k"
      by (simp_all add: Contains_wellFormed [OF B])
    have "IP A ! k AND Mask A ! k = norm4 ip ! k AND Mask A ! k" if "k < L" for k
      using ab [OF that] and_sub [OF m [OF that] e [OF that]] by simp
    with l show "Contains A ip" by (simp add: Contains_wellFormed [OF A])
  qed
qed

lemma conflict_is_covering:
  assumes A: "wellFormed L A" and B: "wellFormed L B" and n: "nestedMasks (Mask A) (Mask B)"
  shows "(Contains A (IP B) \<or> Contains B (IP A)) \<longleftrightarrow> (covers A B \<or> covers B A)"
proof
  assume c: "Contains A (IP B) \<or> Contains B (IP A)"
  from n show "covers A B \<or> covers B A"
    unfolding nestedMasks_def
  proof
    assume "list_all2 (\<lambda>x y. x AND y = x) (Mask A) (Mask B)"
    from covers_sub [OF A B this c] show ?thesis ..
  next
    assume "list_all2 (\<lambda>x y. x AND y = y) (Mask A) (Mask B)"
    then have "list_all2 (\<lambda>x y. x AND y = x) (Mask B) (Mask A)"
      by (simp add: list_all2_conv_all_nth and.commute)
    from covers_sub [OF B A this] c show ?thesis by blast
  qed
next
  assume "covers A B \<or> covers B A"
  then show "Contains A (IP B) \<or> Contains B (IP A)"
    using Contains_self [OF A] Contains_self [OF B] by (auto simp: covers_def)
qed

lemma routeConflicts_covering:
  assumes "wellFormed L a"
    and "list_all (\<lambda>route. case Dst route of
                               None \<Rightarrow> True
                             | Some d \<Rightarrow> wellFormed L d \<and> nestedMasks (Mask a) (Mask d)) rs"
  shows "routeConflicts a rs \<longleftrightarrow>
     list_ex (\<lambda>route. case Dst route of
                         None \<Rightarrow> False
                       | Some d \<Rightarrow> covers a d \<or> covers d a) rs"
  using assms(2)
proof (induction rs)
  case Nil
  show ?case by (simp add: routeConflicts_def)
next
  case (Cons route rs)
  then have IH: "routeConflicts a rs \<longleftrightarrow>
     list_ex (\<lambda>route. case Dst route of
                         None \<Rightarrow> False
                       | Some d \<Rightarrow> covers a d \<or> covers d a) rs"
    by simp
  show ?case
  proof (cases "Dst route")
    case None
    with IH show ?thesis by (simp add: routeConflicts_def)
  next
    case (Some d)
    with Cons.prems have "wellFormed L d" "nestedMasks (Mask a) (Mask d)" by simp_all
    from conflict_is_covering [OF assms(1) this] Some IH show ?thesis
      by (simp add: routeConflicts_def)
  qed
qed

text \<open>The masks of two prefixes of one family are nested.\<close>

lemma small_cases:
  "(n::nat) < 8 \<Longrightarrow> n = 0 \<or> n = 1 \<or> n = 2 \<or> n = 3 \<or> n = 4 \<or> n = 5 \<or> n = 6 \<or> n = 7"
  by arith

lemma cidr_byte_nested:
  assumes "j \<le> k" "k < 8"
  shows "NOT (drop_bit j (0xff :: byte)) AND NOT (drop_bit k 0xff) = NOT (drop_bit j 0xff)"
proof -
  from assms have "j < 8" by simp
  from small_cases [OF this] small_cases [OF assms(2)] assms(1) show ?thesis
    by (elim disjE) (simp_all add: drop_bit_eq_div)
qed

lemma byte_and_ff: "(x :: byte) AND 0xff = x"
proof -
  have "(0xff :: byte) = - 1" by simp
  then show ?thesis by (simp only: and.right_neutral)
qed

lemma cidrBytes_nested:
  "j \<le> k \<Longrightarrow> list_all2 (\<lambda>x y. x AND y = x) (cidrBytes l j) (cidrBytes l k)"
proof (induction l arbitrary: j k)
  case 0
  show ?case by simp
next
  case (Suc l)
  show ?case
  proof (cases "8 \<le> j")
    case True
    with Suc.prems have "8 \<le> k" "j - 8 \<le> k - 8" by simp_all
    with True Suc.IH [of "j - 8" "k - 8"] show ?thesis by simp
  next
    case False
    show ?thesis
    proof (cases "8 \<le> k")
      case True
      with False Suc.IH [of 0 "k - 8"] show ?thesis by (simp add: byte_and_ff)
    next
      case k: False
      with False Suc.prems Suc.IH [of 0 0] cidr_byte_nested [of j k] show ?thesis by simp
    qed
  qed
qed

lemma CIDRMask_nested:
  assumes "bits = 32 \<or> bits = 128" "j \<le> bits" "k \<le> bits"
  shows "nestedMasks (CIDRMask j bits) (CIDRMask k bits)"
proof (cases "j \<le> k")
  case True
  from cidrBytes_nested [OF this] assms show ?thesis
    by (auto simp: nestedMasks_def CIDRMask_def)
next
  case False
  then have "k \<le> j" by simp
  from cidrBytes_nested [OF this, of "bits div 8"]
  have "list_all2 (\<lambda>x y. x AND y = y) (cidrBytes (bits div 8) j) (cidrBytes (bits div 8) k)"
    by (simp add: list_all2_conv_all_nth and.commute)
  with assms show ?thesis
    by (auto simp: nestedMasks_def CIDRMask_def)
qed

section \<open>C1: a route conflict is found before the address is added\<close>

text \<open>
  C1. When \<^verbatim>\<open>AddInterface\<close> applies an IPv4 or IPv6 address, it first lists the routes of
  the namespace for that family, and fails with a conflict error if and only if the
  candidate network contains, or is contained by, the destination of some listed route.
  On a conflict the step has made the one call that lists the routes and no other, so
  the address is not added; and an \<^verbatim>\<open>AddInterface\<close> that returns the conflict of the IPv4
  step has added no address at all, one that returns the conflict of the IPv6 step has
  neither enabled IPv6 on the device nor added an IPv6 address. The code tests the
  containment on the addresses of the two networks; for well-formed networks of one
  family with nested masks that is the same as one network covering the other.
\<close>

theorem route_conflict_before_address:
  "(Address i = Some a \<longrightarrow>
      (case setInterfaceIP K nlh iface i w of
         (r, w') \<Rightarrow>
           ((\<exists>route. r = Some (RouteConflict a route)) \<longleftrightarrow>
              (\<exists>rs. route_list K (trace w) nlh FAMILY_V4 = Inr rs \<and> routeConflicts a rs)) \<and>
           ((\<exists>route. r = Some (RouteConflict a route)) \<longrightarrow>
              w' = emit (CRouteList nlh FAMILY_V4) w))) \<and>
   (AddressIPv6 i = Some a \<longrightarrow>
      (case setInterfaceIPv6 K nlh iface i w of
         (r, w') \<Rightarrow>
           ((\<exists>route. r = Some (RouteConflict a route)) \<longleftrightarrow>
              (\<exists>rs. route_list K (trace w) nlh FAMILY_V6 = Inr rs \<and> routeConflicts a rs)) \<and>
           ((\<exists>route. r = Some (RouteConflict a route)) \<longrightarrow>
              w' = emit (CRouteList nlh FAMILY_V6) w))) \<and>
   (AddInterface K s pfx os v =
      (Some (ConfigError (ErrSettingIP n x) (RouteConflict a route)), v') \<longrightarrow>
        trace v' = trace v @ new_calls v v' \<and> \<not> list_ex addsAddress (new_calls v v')) \<and>
   (AddInterface K s pfx os v =
      (Some (ConfigError (ErrSettingIPv6 n x) (RouteConflict a route)), v') \<longrightarrow>
        trace v' = trace v @ new_calls v v' \<and> \<not> list_ex addsIPv6 (new_calls v v')) \<and>
   (wellFormed L a \<and>
    list_all (\<lambda>route. case Dst route of
                          None \<Rightarrow> True
                        | Some d \<Rightarrow> wellFormed L d \<and> nestedMasks (Mask a) (Mask d)) rs \<longrightarrow>
      (routeConflicts a rs \<longleftrightarrow>
         list_ex (\<lambda>route. case Dst route of
                             None \<Rightarrow> False
                           | Some d \<Rightarrow> covers a d \<or> covers d a) rs))"
proof (intro conjI impI)
  assume a: "Address i = Some a"
  obtain r w' where s: "setInterfaceIP K nlh iface i w = (r, w')" by (metis surj_pair)
  from setInterfaceIP_conflict [OF a s] s
  show "case setInterfaceIP K nlh iface i w of
         (r, w') \<Rightarrow>
           ((\<exists>route. r = Some (RouteConflict a route)) \<longleftrightarrow>
              (\<exists>rs. route_list K (trace w) nlh FAMILY_V4 = Inr rs \<and> routeConflicts a rs)) \<and>
           ((\<exists>route. r = Some (RouteConflict a route)) \<longrightarrow>
              w' = emit (CRouteList nlh FAMILY_V4) w)"
    by simp
next
  assume a: "AddressIPv6 i = Some a"
  obtain r w' where s: "setInterfaceIPv6 K nlh iface i w = (r, w')" by (metis surj_pair)
  from setInterfaceIPv6_conflict [OF a s] s
  show "case setInterfaceIPv6 K nlh iface i w of
         (r, w') \<Rightarrow>
           ((\<exists>route. r = Some (RouteConflict a route)) \<longleftrightarrow>
              (\<exists>rs. route_list K (trace w) nlh FAMILY_V6 = Inr rs \<and> routeConflicts a rs)) \<and>
           ((\<exists>route. r = Some (RouteConflict a route)) \<longrightarrow>
              w' = emit (CRouteList nlh FAMILY_V6) w)"
    by simp
next
  assume "AddInterface K s pfx os v =
      (Some (ConfigError (ErrSettingIP n x) (RouteConflict a route)), v')"
  from AddInterface_IP_conflict [OF this]
  show "trace v' = trace v @ new_calls v v'" and "\<not> list_ex addsAddress (new_calls v v')"
    by simp_all
next
  assume "AddInterface K s pfx os v =
      (Some (ConfigError (ErrSettingIPv6 n x) (RouteConflict a route)), v')"
  from AddInterface_IPv6_conflict [OF this]
  show "trace v' = trace v @ new_calls v v'" and "\<not> list_ex addsIPv6 (new_calls v v')"
    by simp_all
next
  assume "wellFormed L a \<and>
    list_all (\<lambda>route. case Dst route of
                          None \<Rightarrow> True
                        | Some d \<Rightarrow> wellFormed L d \<and> nestedMasks (Mask a) (Mask d)) rs"
  then show "routeConflicts a rs \<longleftrightarrow>
         list_ex (\<lambda>route. case Dst route of
                             None \<Rightarrow> False
                           | Some d \<Rightarrow> covers a d \<or> covers d a) rs"
    using routeConflicts_covering [of L a rs] by simp
qed

text \<open>The example of the specification: the kernel has a route to \<open>10.0.0.0/24\<close>.
  Adding a device with the address \<open>10.0.0.5/24\<close> fails with the conflict and adds no
  address; with \<open>192.168.1.5/24\<close> it succeeds and the address is added. The same for an
  IPv6 address under a route to \<open>fd00::/8\<close>.\<close>

theorem route_conflict_before_address_witness:
  "fst (AddInterface kernel_route10 ''veth0'' ''eth'' [OptAddress (net24 10 0 0 5)] sandbox) =
     Some (ConfigError (ErrSettingIP ''veth0'' (Some (net24 10 0 0 5)))
             (RouteConflict (net24 10 0 0 5) route10)) \<and>
   \<not> list_ex addsAddress
       (trace (snd (AddInterface kernel_route10 ''veth0'' ''eth'' [OptAddress (net24 10 0 0 5)] sandbox))) \<and>
   fst (AddInterface kernel_route10 ''veth0'' ''eth'' [OptAddress (net24 192 168 1 5)] sandbox) = None \<and>
   list_ex addsAddress
       (trace (snd (AddInterface kernel_route10 ''veth0'' ''eth'' [OptAddress (net24 192 168 1 5)] sandbox))) \<and>
   fst (AddInterface kernel_route_fd ''veth0'' ''eth'' [OptAddressIPv6 (net6 0xfd 5)] sandbox) =
     Some (ConfigError (ErrSettingIPv6 ''veth0'' (Some (net6 0xfd 5)))
             (RouteConflict (net6 0xfd 5) route_fd)) \<and>
   \<not> list_ex addsIPv6
       (trace (snd (AddInterface kernel_route_fd ''veth0'' ''eth'' [OptAddressIPv6 (net6 0xfd 5)] sandbox))) \<and>
   routeConflicts (net24 10 0 0 5) [route10] \<and>
   fst (setInterfaceIP kernel_route10 1 \<lparr>attrs_Name = ''veth0'', attrs_Index = 7, attrs_Statistics = None\<rparr>
         \<lparr>srcName = ''veth0'', dstName = ''eth0'', master = [], dstMaster = [], mac = None,
          address = Some (net24 10 0 0 5), addressIPv6 = None, llAddrs = [], routes = [],
          bridge = False\<rparr> sandbox) = Some (RouteConflict (net24 10 0 0 5) route10) \<and>
   (covers (net24 10 0 0 5) (net24 10 0 0 0) \<or> covers (net24 10 0 0 0) (net24 10 0 0 5))"
proof -
  let ?A = "AddInterface kernel_route10 ''veth0'' ''eth'' [OptAddress (net24 10 0 0 5)] sandbox"
  let ?B = "AddInterface kernel_route10 ''veth0'' ''eth'' [OptAddress (net24 192 168 1 5)] sandbox"
  let ?C = "AddInterface kernel_route_fd ''veth0'' ''eth'' [OptAddressIPv6 (net6 0xfd 5)] sandbox"
  let ?l = "\<lparr>attrs_Name = ''veth0'', attrs_Index = 7, attrs_Statistics = None\<rparr>"
  let ?i = "\<lparr>srcName = ''veth0'', dstName = ''eth0'', master = [], dstMaster = [], mac = None,
          address = Some (net24 10 0 0 5), addressIPv6 = None, llAddrs = [], routes = [],
          bridge = False\<rparr>"
  have a: "fst ?A = Some (ConfigError (ErrSettingIP ''veth0'' (Some (net24 10 0 0 5)))
             (RouteConflict (net24 10 0 0 5) route10))"
    by code_simp
  then have a': "?A = (Some (ConfigError (ErrSettingIP ''veth0'' (Some (net24 10 0 0 5)))
             (RouteConflict (net24 10 0 0 5) route10)), snd ?A)"
    by (metis prod.collapse)
  have t0: "trace sandbox = []" by (simp add: sandbox_def)
  from route_conflict_before_address
    [where K = kernel_route10 and s = "''veth0''" and pfx = "''eth''"
       and os = "[OptAddress (net24 10 0 0 5)]" and v = sandbox and n = "''veth0''"
       and x = "Some (net24 10 0 0 5)" and a = "net24 10 0 0 5" and route = route10
       and v' = "snd ?A"]
    a' t0
  have na: "\<not> list_ex addsAddress (trace (snd ?A))"
    by simp
  have b: "fst ?B = None" by code_simp
  have b': "list_ex addsAddress (trace (snd ?B))" by code_simp
  have c: "fst ?C = Some (ConfigError (ErrSettingIPv6 ''veth0'' (Some (net6 0xfd 5)))
             (RouteConflict (net6 0xfd 5) route_fd))"
    by code_simp
  then have c': "?C = (Some (ConfigError (ErrSettingIPv6 ''veth0'' (Some (net6 0xfd 5)))
             (RouteConflict (net6 0xfd 5) route_fd)), snd ?C)"
    by (metis prod.collapse)
  from route_conflict_before_address
    [where K = kernel_route_fd and s = "''veth0''" and pfx = "''eth''"
       and os = "[OptAddressIPv6 (net6 0xfd 5)]" and v = sandbox and n = "''veth0''"
       and x = "Some (net6 0xfd 5)" and a = "net6 0xfd 5" and route = route_fd
       and v' = "snd ?C"]
    c' t0
  have nc: "\<not> list_ex addsIPv6 (trace (snd ?C))"
    by simp
  have rc: "routeConflicts (net24 10 0 0 5) [route10]" by code_simp
  have rl: "route_list kernel_route10 (trace sandbox) 1 FAMILY_V4 = Inr [route10]"
    by (simp add: kernel_route10_def kernel_ok_def)
  have ad: "Address ?i = Some (net24 10 0 0 5)" by (simp add: Address_def)
  obtain r w' where s: "setInterfaceIP kernel_route10 1 ?l ?i sandbox = (r, w')" by (metis surj_pair)
  from route_conflict_before_address
    [where i = ?i and a = "net24 10 0 0 5" and K = kernel_route10 and nlh = 1 and iface = ?l
       and w = sandbox]
    ad s rl rc
  have "\<exists>route. r = Some (RouteConflict (net24 10 0 0 5) route)" by simp
  moreover have "fst (setInterfaceIP kernel_route10 1 ?l ?i sandbox) \<noteq> None \<longrightarrow>
      fst (setInterfaceIP kernel_route10 1 ?l ?i sandbox) = Some (RouteConflict (net24 10 0 0 5) route10)"
    by code_simp
  ultimately have d: "fst (setInterfaceIP kernel_route10 1 ?l ?i sandbox) =
      Some (RouteConflict (net24 10 0 0 5) route10)"
    using s by auto
  have wf: "wellFormed 4 (net24 10 0 0 5)" by code_simp
  have nm: "list_all (\<lambda>route. case Dst route of
                          None \<Rightarrow> True
                        | Some d \<Rightarrow> wellFormed 4 d \<and> nestedMasks (Mask (net24 10 0 0 5)) (Mask d))
              [route10]"
    by code_simp
  from route_conflict_before_address [where L = 4 and a = "net24 10 0 0 5" and rs = "[route10]"]
    wf nm rc
  have "list_ex (\<lambda>route. case Dst route of
                             None \<Rightarrow> False
                           | Some d \<Rightarrow> covers (net24 10 0 0 5) d \<or> covers d (net24 10 0 0 5))
          [route10]"
    by blast
  then have e: "covers (net24 10 0 0 5) (net24 10 0 0 0) \<or> covers (net24 10 0 0 0) (net24 10 0 0 5)"
    by (simp add: route10_def)
  from a na b b' c nc rc d e show ?thesis by blast
qed


section \<open>C3: the configurator pipeline\<close>

text \<open>
  C3. \<^verbatim>\<open>configureInterface\<close> applies six steps to the device, in this order: rename to the
  destination name, set the hardware address, set the IPv4 address, set the IPv6 address,
  set the master, add the link-local addresses. The first step that fails ends the
  pipeline: its error is returned wrapped with the message of that step, and the state is
  the one that step left, so no later step has run. A step whose input is absent (no MAC,
  no IPv4 network, no IPv6 network, no resolved master, no link-local address) returns
  success and leaves the state as it was.
\<close>

theorem configurator_pipeline:
  "configureInterface K nlh iface i w =
     (case setInterfaceName K nlh iface i w of
        (Some err, w1) \<Rightarrow> (Some (ConfigError (ErrRenaming (attrs_Name iface) (DstName i)) err), w1)
      | (None, w1) \<Rightarrow>
     (case setInterfaceMAC K nlh iface i w1 of
        (Some err, w2) \<Rightarrow> (Some (ConfigError (ErrSettingMAC (attrs_Name iface) (MacAddress i)) err), w2)
      | (None, w2) \<Rightarrow>
     (case setInterfaceIP K nlh iface i w2 of
        (Some err, w3) \<Rightarrow> (Some (ConfigError (ErrSettingIP (attrs_Name iface) (Address i)) err), w3)
      | (None, w3) \<Rightarrow>
     (case setInterfaceIPv6 K nlh iface i w3 of
        (Some err, w4) \<Rightarrow> (Some (ConfigError (ErrSettingIPv6 (attrs_Name iface) (AddressIPv6 i)) err), w4)
      | (None, w4) \<Rightarrow>
     (case setInterfaceMaster K nlh iface i w4 of
        (Some err, w5) \<Rightarrow> (Some (ConfigError (ErrSettingMaster (attrs_Name iface) (DstMaster i)) err), w5)
      | (None, w5) \<Rightarrow>
     (case setInterfaceLinkLocalIPs K nlh iface i w5 of
        (Some err, w6) \<Rightarrow>
          (Some (ConfigError (ErrSettingLinkLocal (attrs_Name iface) (LinkLocalAddresses i)) err), w6)
      | (None, w6) \<Rightarrow> (None, w6))))))) \<and>
   (MacAddress i = None \<longrightarrow> setInterfaceMAC K nlh iface i w = (None, w)) \<and>
   (Address i = None \<longrightarrow> setInterfaceIP K nlh iface i w = (None, w)) \<and>
   (AddressIPv6 i = None \<longrightarrow> setInterfaceIPv6 K nlh iface i w = (None, w)) \<and>
   (DstMaster i = [] \<longrightarrow> setInterfaceMaster K nlh iface i w = (None, w)) \<and>
   (LinkLocalAddresses i = [] \<longrightarrow> setInterfaceLinkLocalIPs K nlh iface i w = (None, w))"
proof (intro conjI impI)
  show "configureInterface K nlh iface i w =
     (case setInterfaceName K nlh iface i w of
        (Some err, w1) \<Rightarrow> (Some (ConfigError (ErrRenaming (attrs_Name iface) (DstName i)) err), w1)
      | (None, w1) \<Rightarrow>
     (case setInterfaceMAC K nlh iface i w1 of
        (Some err, w2) \<Rightarrow> (Some (ConfigError (ErrSettingMAC (attrs_Name iface) (MacAddress i)) err), w2)
      | (None, w2) \<Rightarrow>
     (case setInterfaceIP K nlh iface i w2 of
        (Some err, w3) \<Rightarrow> (Some (ConfigError (ErrSettingIP (attrs_Name iface) (Address i)) err), w3)
      | (None, w3) \<Rightarrow>
     (case setInterfaceIPv6 K nlh iface i w3 of
        (Some err, w4) \<Rightarrow> (Some (ConfigError (ErrSettingIPv6 (attrs_Name iface) (AddressIPv6 i)) err), w4)
      | (None, w4) \<Rightarrow>
     (case setInterfaceMaster K nlh iface i w4 of
        (Some err, w5) \<Rightarrow> (Some (ConfigError (ErrSettingMaster (attrs_Name iface) (DstMaster i)) err), w5)
      | (None, w5) \<Rightarrow>
     (case setInterfaceLinkLocalIPs K nlh iface i w5 of
        (Some err, w6) \<Rightarrow>
          (Some (ConfigError (ErrSettingLinkLocal (attrs_Name iface) (LinkLocalAddresses i)) err), w6)
      | (None, w6) \<Rightarrow> (None, w6)))))))"
    by (rule configureInterface_unfold)
next
  assume "MacAddress i = None"
  then show "setInterfaceMAC K nlh iface i w = (None, w)"
    by (simp add: setInterfaceMAC_def)
next
  assume "Address i = None"
  then show "setInterfaceIP K nlh iface i w = (None, w)"
    by (simp add: setInterfaceIP_def)
next
  assume "AddressIPv6 i = None"
  then show "setInterfaceIPv6 K nlh iface i w = (None, w)"
    by (simp add: setInterfaceIPv6_def)
next
  assume "DstMaster i = []"
  then show "setInterfaceMaster K nlh iface i w = (None, w)"
    by (simp add: setInterfaceMaster_def)
next
  assume "LinkLocalAddresses i = []"
  then show "setInterfaceLinkLocalIPs K nlh iface i w = (None, w)"
    by (simp add: setInterfaceLinkLocalIPs_def)
qed

text \<open>On a bare entity the five optional steps change nothing, so the pipeline makes the
  rename and nothing else. On a full entity the calls come in the order of the steps.
  When the kernel refuses the hardware address, the error of the second step comes back
  wrapped with its message, and the calls end with that step.\<close>

theorem configurator_pipeline_witness:
  "configureInterface kernel_ok 1 link_veth0 iface_bare sandbox =
     (None, emit (CLinkSetName 1 link_veth0 ''eth0'') sandbox) \<and>
   fst (configureInterface kernel_ok 1 link_veth0 iface_full sandbox) = None \<and>
   trace (snd (configureInterface kernel_ok 1 link_veth0 iface_full sandbox)) =
        [CLinkSetName 1 link_veth0 ''eth0'',
         CLinkSetHardwareAddr 1 link_veth0 [2, 66, 172, 17, 0, 2],
         CRouteList 1 FAMILY_V4,
         CAddrAdd 1 link_veth0 \<lparr>addr_IPNet = Some (net24 172 17 0 2), addr_Label = [], addr_Flags = 0\<rparr>,
         CRouteList 1 FAMILY_V6,
         CsetIPv6 ''/var/run/docker/netns/sb'' ''eth0'' True,
         CAddrAdd 1 link_veth0
           \<lparr>addr_IPNet = Some (net6 0xfd 2), addr_Label = [], addr_Flags = IFA_F_NODAD\<rparr>,
         CLinkSetMaster 1 link_veth0 ''br0'',
         CAddrAdd 1 link_veth0
           \<lparr>addr_IPNet = Some (net24 169 254 0 2), addr_Label = [], addr_Flags = 0\<rparr>] \<and>
   fst (configureInterface kernel_no_mac 1 link_veth0 iface_full sandbox) = Some (ConfigError (ErrSettingMAC ''veth0'' (Some [2, 66, 172, 17, 0, 2])) (Kernel (Kerr ''EPERM''))) \<and>
   trace (snd (configureInterface kernel_no_mac 1 link_veth0 iface_full sandbox)) =
        [CLinkSetName 1 link_veth0 ''eth0'',
             CLinkSetHardwareAddr 1 link_veth0 [2, 66, 172, 17, 0, 2]]"
proof -
  have bare: "MacAddress iface_bare = None" "Address iface_bare = None"
    "AddressIPv6 iface_bare = None" "DstMaster iface_bare = []"
    "LinkLocalAddresses iface_bare = []"
    by (simp_all add: iface_bare_def MacAddress_def Address_def AddressIPv6_def DstMaster_def
        LinkLocalAddresses_def)
  have name: "setInterfaceName kernel_ok 1 link_veth0 iface_bare sandbox =
      (None, emit (CLinkSetName 1 link_veth0 ''eth0'') sandbox)"
    by (simp add: setInterfaceName_def LinkSetName_def nlcall_def kernel_ok_def DstName_def
        iface_bare_def)
  note p = configurator_pipeline [where K = kernel_ok and nlh = 1 and iface = link_veth0
      and i = iface_bare]
  have 1: "configureInterface kernel_ok 1 link_veth0 iface_bare sandbox =
     (None, emit (CLinkSetName 1 link_veth0 ''eth0'') sandbox)"
    using p [of sandbox] p [of "emit (CLinkSetName 1 link_veth0 ''eth0'') sandbox"] bare name
    by simp
  have 2: "fst (configureInterface kernel_ok 1 link_veth0 iface_full sandbox) = None \<and>
   trace (snd (configureInterface kernel_ok 1 link_veth0 iface_full sandbox)) =
        [CLinkSetName 1 link_veth0 ''eth0'',
         CLinkSetHardwareAddr 1 link_veth0 [2, 66, 172, 17, 0, 2],
         CRouteList 1 FAMILY_V4,
         CAddrAdd 1 link_veth0 \<lparr>addr_IPNet = Some (net24 172 17 0 2), addr_Label = [], addr_Flags = 0\<rparr>,
         CRouteList 1 FAMILY_V6,
         CsetIPv6 ''/var/run/docker/netns/sb'' ''eth0'' True,
         CAddrAdd 1 link_veth0
           \<lparr>addr_IPNet = Some (net6 0xfd 2), addr_Label = [], addr_Flags = IFA_F_NODAD\<rparr>,
         CLinkSetMaster 1 link_veth0 ''br0'',
         CAddrAdd 1 link_veth0
           \<lparr>addr_IPNet = Some (net24 169 254 0 2), addr_Label = [], addr_Flags = 0\<rparr>]"
    by code_simp
  have 3: "fst (configureInterface kernel_no_mac 1 link_veth0 iface_full sandbox) = Some (ConfigError (ErrSettingMAC ''veth0'' (Some [2, 66, 172, 17, 0, 2])) (Kernel (Kerr ''EPERM''))) \<and>
   trace (snd (configureInterface kernel_no_mac 1 link_veth0 iface_full sandbox)) =
        [CLinkSetName 1 link_veth0 ''eth0'',
             CLinkSetHardwareAddr 1 link_veth0 [2, 66, 172, 17, 0, 2]]"
    by code_simp
  from 1 2 3 show ?thesis by blast
qed


section \<open>C4: a failed configuration is rolled back and its error returned\<close>

text \<open>
  C4. When \<^verbatim>\<open>AddInterface\<close> has placed and found the device and the configurator pipeline
  fails with an error, then \<^verbatim>\<open>AddInterface\<close> returns that error, and after the pipeline
  it makes exactly the calls of the rollback (and the deferred close): the rename to the
  source name and the move to the namespace of the caller are both made whatever the
  kernel answers to the rename; a failure of either only adds a log entry and never
  changes the result; and the collection of the namespace is what it was before the
  call, so the entity is not registered.
\<close>

theorem configuration_failure_rolled_back:
  assumes su: "AddInterface_setup K s pfx os w = ((Inr (p, iface), d), w1)"
    and cfg: "configureInterface K (nlHandle (ns w1)) iface (heap w1 ! p) w1 = (Some err, w2)"
  shows "\<exists>w'. AddInterface K s pfx os w = (Some err, w') \<and>
           trace w' = trace w2 @ rollbackCalls K (nlHandle (ns w1)) iface (heap w1 ! p) (trace w2)
                        @ closeCalls d \<and>
           CLinkSetName (nlHandle (ns w1)) iface (SrcName (heap w1 ! p))
             \<in> set (rollbackCalls K (nlHandle (ns w1)) iface (heap w1 ! p) (trace w2)) \<and>
           CLinkSetNsFd (nlHandle (ns w1)) iface (ParseHandlerInt K)
             \<in> set (rollbackCalls K (nlHandle (ns w1)) iface (heap w1 ! p) (trace w2)) \<and>
           iFaces (ns w') = iFaces (ns w)"
proof -
  have e: "extends (\<lambda>c. True) w1 w2"
    by (rule configureInterface_extends [OF cfg]) simp_all
  have i1: "iFaces (ns w1) = iFaces (ns w)"
    by (rule setup_frame(2) [OF su, of "\<lambda>c. True"]) simp_all
  from e have i2: "ns w2 = ns w1" by (simp add: extends_def)
  have r: "CLinkSetName (nlHandle (ns w1)) iface (SrcName (heap w1 ! p))
             \<in> set (rollbackCalls K (nlHandle (ns w1)) iface (heap w1 ! p) (trace w2))"
    "CLinkSetNsFd (nlHandle (ns w1)) iface (ParseHandlerInt K)
             \<in> set (rollbackCalls K (nlHandle (ns w1)) iface (heap w1 ! p) (trace w2))"
    by (simp_all add: rollbackCalls_def Let_def)
  from su cfg have "AddInterface K s pfx os w =
      (Some err, emits (rollbackCalls K (nlHandle (ns w1)) iface (heap w1 ! p) (trace w2)
                        @ closeCalls d) w2)"
    unfolding AddInterface_def AddInterface_configure_def Let_def
    by (simp add: rollback_emits runDeferred_emits)
  with r i1 i2 show ?thesis by simp
qed

text \<open>On a kernel where the name \<open>eth0\<close> is taken, the rename of the pipeline fails. The
  device is renamed back; the move back fails too and is logged; the error returned is
  the one of the pipeline, and nothing is registered.\<close>

theorem configuration_failure_rolled_back_witness:
  "fst (AddInterface kernel_taken ''veth0'' ''eth'' [] sandbox) =
     Some (ConfigError (ErrRenaming ''veth0'' ''eth0'') (Kernel (Kerr ''EEXIST''))) \<and>
   trace (snd (AddInterface kernel_taken ''veth0'' ''eth'' [] sandbox)) =
     [CLinkByName 0 ''veth0'', CGetFromPath ''/var/run/docker/netns/sb'',
      CLinkSetNsFd 0 link_veth0 5, CLinkByName 1 ''veth0'', CLinkSetDown 1 link_veth0,
      CLinkSetName 1 link_veth0 ''eth0'',
      CLinkSetName 1 link_veth0 ''veth0'',
      CLinkSetNsFd 1 link_veth0 3,
      CLog Errorf ''moving interface %s to host ns failed, %v, after config error %v'',
      CNsClose 5] \<and>
   iFaces (ns (snd (AddInterface kernel_taken ''veth0'' ''eth'' [] sandbox))) = []"
proof -
  let ?S = "AddInterface_setup kernel_taken ''veth0'' ''eth'' [] sandbox"
  let ?C = "configureInterface kernel_taken (nlHandle (ns (snd ?S))) link_veth0
              (heap (snd ?S) ! 0) (snd ?S)"
  let ?e = "ConfigError (ErrRenaming ''veth0'' ''eth0'') (Kernel (Kerr ''EEXIST''))"
  have "fst ?S = (Inr (0, link_veth0), Some 5)" by code_simp
  then have su: "?S = ((Inr (0, link_veth0), Some 5), snd ?S)" by (metis prod.collapse)
  have "fst ?C = Some ?e" by code_simp
  then have cfg: "?C = (Some ?e, snd ?C)" by (metis prod.collapse)
  from configuration_failure_rolled_back [OF su cfg] obtain w' where
    a: "AddInterface kernel_taken ''veth0'' ''eth'' [] sandbox = (Some ?e, w')" and
    i: "iFaces (ns w') = iFaces (ns sandbox)"
    by blast
  have t: "trace (snd (AddInterface kernel_taken ''veth0'' ''eth'' [] sandbox)) =
     [CLinkByName 0 ''veth0'', CGetFromPath ''/var/run/docker/netns/sb'',
      CLinkSetNsFd 0 link_veth0 5, CLinkByName 1 ''veth0'', CLinkSetDown 1 link_veth0,
      CLinkSetName 1 link_veth0 ''eth0'',
      CLinkSetName 1 link_veth0 ''veth0'',
      CLinkSetNsFd 1 link_veth0 3,
      CLog Errorf ''moving interface %s to host ns failed, %v, after config error %v'',
      CNsClose 5]"
    by code_simp
  from a i t show ?thesis by (simp add: sandbox_def)
qed


section \<open>C5: the link is brought up with at most three retries\<close>

text \<open>
  C5. The activation calls \<^verbatim>\<open>LinkSetUp\<close> at most 4 times, the first attempt and up to 3
  retries, each retry after a log entry and a pause of 10 milliseconds. With \<open>k\<close> failed
  attempts before the first success (\<open>k < 4\<close>) it makes \<open>k + 1\<close> calls and succeeds: so
  failing twice and then succeeding makes exactly 3. When all 4 attempts fail the
  result is the error of the fourth. In \<^verbatim>\<open>AddInterface\<close>, after a successful
  configuration: if all 4 attempts fail, the result is the link-up failure, no call
  follows the fourth attempt but the deferred close (so nothing is rolled back), and the
  collection of the namespace is what it was before the call; if an attempt succeeds,
  \<^verbatim>\<open>AddInterface\<close> goes on to the routes and the registration.
\<close>

theorem link_activation_retries:
  "(k < 4 \<and> (\<forall>j<k. answer K (trace w2 @ retryCalls nlh iface j) (CLinkSetUp nlh iface) \<noteq> None) \<and>
      (answer K (trace w2 @ retryCalls nlh iface k) (CLinkSetUp nlh iface) = None \<or> k = 3) \<longrightarrow>
    linkUp K nlh iface w2 =
      (map_option Kernel (answer K (trace w2 @ retryCalls nlh iface k) (CLinkSetUp nlh iface)),
       emits (retryCalls nlh iface k @ [CLinkSetUp nlh iface]) w2)) \<and>
   count_list (new_calls w2 (snd (linkUp K nlh iface w2))) (CLinkSetUp nlh iface) \<le> 4 \<and>
   (AddInterface_setup K s pfx os w = ((Inr (p, iface), d), w1) \<and>
    configureInterface K (nlHandle (ns w1)) iface (heap w1 ! p) w1 = (None, w2) \<and>
    nlh = nlHandle (ns w1) \<longrightarrow>
      (case linkUp K nlh iface w2 of
         (Some err, w3) \<Rightarrow>
           AddInterface K s pfx os w = (Some (FailedSetLinkUp err), emits (closeCalls d) w3) \<and>
           iFaces (ns (emits (closeCalls d) w3)) = iFaces (ns w)
       | (None, w3) \<Rightarrow>
           AddInterface K s pfx os w =
             (case setInterfaceRoutes K nlh iface (heap w1 ! p) w3 of
                (Some err, w4) \<Rightarrow>
                  (Some (FailedSetRoutes (attrs_Name iface) (Routes (heap w1 ! p)) err),
                   emits (closeCalls d) w4)
              | (None, w4) \<Rightarrow>
                  (None,
                   emits (closeCalls d)
                     (checkLoV6 K (w4\<lparr>ns := (ns w4)\<lparr>iFaces := iFaces (ns w4) @ [p]\<rparr>\<rparr>))))))"
proof (intro conjI impI)
  let ?up = "CLinkSetUp nlh iface"
  let ?att = "\<lambda>j. answer K (trace w2 @ retryCalls nlh iface j) ?up"
  assume a: "k < 4 \<and> (\<forall>j<k. ?att j \<noteq> None) \<and> (?att k = None \<or> k = 3)"
  then consider "k = 0" | "k = 1" | "k = 2" | "k = 3" by linarith
  then show "linkUp K nlh iface w2 =
      (map_option Kernel (?att k), emits (retryCalls nlh iface k @ [?up]) w2)"
  proof cases
    case 1
    with a show ?thesis by (auto simp: linkUp_unroll Let_def)
  next
    case 2
    with a have "?att 0 \<noteq> None" "?att 1 = None" by auto
    with 2 show ?thesis by (auto simp: linkUp_unroll Let_def)
  next
    case 3
    with a have "?att 0 \<noteq> None" "?att 1 \<noteq> None" "?att 2 = None" by auto
    with 3 show ?thesis by (auto simp: linkUp_unroll Let_def)
  next
    case 4
    with a have "?att 0 \<noteq> None" "?att 1 \<noteq> None" "?att 2 \<noteq> None" by auto
    with 4 show ?thesis by (auto simp: linkUp_unroll Let_def)
  qed
next
  have c: "count_list (retryCalls nlh iface j) (CLinkSetUp nlh iface) = j"
    for j by (induction j) (simp_all add: retryCalls_0 retryCalls_Suc)
  have n: "new_calls w2 (emits cs w2) = cs" for cs
    by (simp add: new_calls_def)
  show "count_list (new_calls w2 (snd (linkUp K nlh iface w2))) (CLinkSetUp nlh iface) \<le> 4"
    unfolding linkUp_unroll Let_def by (simp add: n c)
next
  assume a: "AddInterface_setup K s pfx os w = ((Inr (p, iface), d), w1) \<and>
    configureInterface K (nlHandle (ns w1)) iface (heap w1 ! p) w1 = (None, w2) \<and>
    nlh = nlHandle (ns w1)"
  then have su: "AddInterface_setup K s pfx os w = ((Inr (p, iface), d), w1)"
    and cfg: "configureInterface K (nlHandle (ns w1)) iface (heap w1 ! p) w1 = (None, w2)"
    and nlh: "nlh = nlHandle (ns w1)" by simp_all
  have i1: "iFaces (ns w1) = iFaces (ns w)"
    by (rule setup_frame(2) [OF su, of "\<lambda>c. True"]) simp_all
  have "extends (\<lambda>c. True) w1 w2"
    by (rule configureInterface_extends [OF cfg]) simp_all
  then have i2: "ns w2 = ns w1" by (simp add: extends_def)
  obtain r w3 where l: "linkUp K nlh iface w2 = (r, w3)" by (metis surj_pair)
  have "\<exists>cs. w3 = emits cs w2"
    using l unfolding linkUp_unroll Let_def by (auto split: if_splits)
  then have i3: "ns w3 = ns w2" by auto
  from su cfg l nlh i1 i2 i3
  show "case linkUp K nlh iface w2 of
         (Some err, w3) \<Rightarrow>
           AddInterface K s pfx os w = (Some (FailedSetLinkUp err), emits (closeCalls d) w3) \<and>
           iFaces (ns (emits (closeCalls d) w3)) = iFaces (ns w)
       | (None, w3) \<Rightarrow>
           AddInterface K s pfx os w =
             (case setInterfaceRoutes K nlh iface (heap w1 ! p) w3 of
                (Some err, w4) \<Rightarrow>
                  (Some (FailedSetRoutes (attrs_Name iface) (Routes (heap w1 ! p)) err),
                   emits (closeCalls d) w4)
              | (None, w4) \<Rightarrow>
                  (None,
                   emits (closeCalls d)
                     (checkLoV6 K (w4\<lparr>ns := (ns w4)\<lparr>iFaces := iFaces (ns w4) @ [p]\<rparr>\<rparr>))))"
    unfolding AddInterface_def AddInterface_configure_def Let_def
    by (cases r) (simp_all add: runDeferred_emits split: prod.splits option.splits)
qed

text \<open>On a kernel that brings the link up at the third attempt, \<^verbatim>\<open>AddInterface\<close>
  succeeds after exactly 3 calls of \<^verbatim>\<open>LinkSetUp\<close> and 2 pauses, and registers the entity.
  On a kernel that never brings it up, it fails after exactly 4 calls and 3 pauses,
  nothing follows the fourth call but the deferred close, and nothing is registered.\<close>

theorem link_activation_retries_witness:
  "fst (AddInterface kernel_up_third ''veth0'' ''eth'' [] sandbox) = None \<and>
   trace (snd (AddInterface kernel_up_third ''veth0'' ''eth'' [] sandbox)) =
     [CLinkByName 0 ''veth0'', CGetFromPath ''/var/run/docker/netns/sb'',
      CLinkSetNsFd 0 link_veth0 5, CLinkByName 1 ''veth0'', CLinkSetDown 1 link_veth0,
      CLinkSetName 1 link_veth0 ''eth0'',
      CLinkSetUp 1 link_veth0, CLog Debugf ''retrying link setup because of: %v'', CSleep 10,
      CLinkSetUp 1 link_veth0, CLog Debugf ''retrying link setup because of: %v'', CSleep 10,
      CLinkSetUp 1 link_veth0,
      CcheckLoV6, CNsClose 5] \<and>
   iFaces (ns (snd (AddInterface kernel_up_third ''veth0'' ''eth'' [] sandbox))) = [0] \<and>
   fst (AddInterface kernel_up_never ''veth0'' ''eth'' [] sandbox) =
     Some (FailedSetLinkUp (Kernel (Kerr ''EBUSY''))) \<and>
   trace (snd (AddInterface kernel_up_never ''veth0'' ''eth'' [] sandbox)) =
     [CLinkByName 0 ''veth0'', CGetFromPath ''/var/run/docker/netns/sb'',
      CLinkSetNsFd 0 link_veth0 5, CLinkByName 1 ''veth0'', CLinkSetDown 1 link_veth0,
      CLinkSetName 1 link_veth0 ''eth0'',
      CLinkSetUp 1 link_veth0, CLog Debugf ''retrying link setup because of: %v'', CSleep 10,
      CLinkSetUp 1 link_veth0, CLog Debugf ''retrying link setup because of: %v'', CSleep 10,
      CLinkSetUp 1 link_veth0, CLog Debugf ''retrying link setup because of: %v'', CSleep 10,
      CLinkSetUp 1 link_veth0,
      CNsClose 5] \<and>
   iFaces (ns (snd (AddInterface kernel_up_never ''veth0'' ''eth'' [] sandbox))) = []"
proof -
  let ?A = "AddInterface kernel_up_third ''veth0'' ''eth'' [] sandbox"
  let ?B = "AddInterface kernel_up_never ''veth0'' ''eth'' [] sandbox"
  let ?S = "AddInterface_setup kernel_up_never ''veth0'' ''eth'' [] sandbox"
  let ?C = "configureInterface kernel_up_never (nlHandle (ns (snd ?S))) link_veth0
              (heap (snd ?S) ! 0) (snd ?S)"
  let ?L = "linkUp kernel_up_never 1 link_veth0 (snd ?C)"
  have "fst ?S = (Inr (0, link_veth0), Some 5)" by code_simp
  then have su: "?S = ((Inr (0, link_veth0), Some 5), snd ?S)" by (metis prod.collapse)
  have "fst ?C = None" by code_simp
  then have cfg: "?C = (None, snd ?C)" by (metis prod.collapse)
  have nlh: "1 = nlHandle (ns (snd ?S))" by code_simp
  obtain r w3 where l: "?L = (r, w3)" by (metis surj_pair)
  have "fst ?L = Some (Kernel (Kerr ''EBUSY''))" by code_simp
  with l have r: "r = Some (Kernel (Kerr ''EBUSY''))" by simp
  note T = link_activation_retries
    [where K = kernel_up_never and s = "''veth0''" and pfx = "''eth''" and os = "[]"
       and w = sandbox and p = 0 and iface = link_veth0 and d = "Some 5" and ?w1.0 = "snd ?S"
       and ?w2.0 = "snd ?C" and nlh = 1,
     THEN conjunct2, THEN conjunct2, rule_format, OF conjI [OF su conjI [OF cfg nlh]]]
  from T l r
  have b: "?B = (Some (FailedSetLinkUp (Kernel (Kerr ''EBUSY''))), emits (closeCalls (Some 5)) w3)"
    and bi: "iFaces (ns (emits (closeCalls (Some 5)) w3)) = iFaces (ns sandbox)"
    by simp_all
  have a1: "fst ?A = None" by code_simp
  have a2: "trace (snd ?A) =
     [CLinkByName 0 ''veth0'', CGetFromPath ''/var/run/docker/netns/sb'',
      CLinkSetNsFd 0 link_veth0 5, CLinkByName 1 ''veth0'', CLinkSetDown 1 link_veth0,
      CLinkSetName 1 link_veth0 ''eth0'',
      CLinkSetUp 1 link_veth0, CLog Debugf ''retrying link setup because of: %v'', CSleep 10,
      CLinkSetUp 1 link_veth0, CLog Debugf ''retrying link setup because of: %v'', CSleep 10,
      CLinkSetUp 1 link_veth0,
      CcheckLoV6, CNsClose 5]" by code_simp
  have a3: "iFaces (ns (snd ?A)) = [0]" by code_simp
  have b2: "trace (snd ?B) =
     [CLinkByName 0 ''veth0'', CGetFromPath ''/var/run/docker/netns/sb'',
      CLinkSetNsFd 0 link_veth0 5, CLinkByName 1 ''veth0'', CLinkSetDown 1 link_veth0,
      CLinkSetName 1 link_veth0 ''eth0'',
      CLinkSetUp 1 link_veth0, CLog Debugf ''retrying link setup because of: %v'', CSleep 10,
      CLinkSetUp 1 link_veth0, CLog Debugf ''retrying link setup because of: %v'', CSleep 10,
      CLinkSetUp 1 link_veth0, CLog Debugf ''retrying link setup because of: %v'', CSleep 10,
      CLinkSetUp 1 link_veth0,
      CNsClose 5]" by code_simp
  from b bi have "fst ?B = Some (FailedSetLinkUp (Kernel (Kerr ''EBUSY'')))"
    and "iFaces (ns (snd ?B)) = []" by (simp_all add: sandbox_def)
  with a1 a2 a3 b2 show ?thesis by blast
qed


section \<open>C6: what \<^verbatim>\<open>Remove\<close> does\<close>

text \<open>
  C6. \<^verbatim>\<open>Remove\<close> finds the device by its destination name, sets it down and renames it to
  its source name. If the rename fails, \<^verbatim>\<open>Remove\<close> logs it, returns that error and does
  nothing more. Otherwise a bridge is deleted from the kernel, and a device that is no
  bridge in a namespace that is not the default one is moved to the namespace of the
  caller (in the default namespace it is left where it is). When that succeeds, the
  entity is taken out of the collection: the first element of the collection that is
  this very pointer is cut out, so an entity of the same names at another pointer stays.
\<close>

theorem remove_sequence:
  assumes valid: "p < length (heap w)"
    and i: "i = heap w ! p" and nlh: "nlh = nlHandle (ns w)"
    and found: "link_by_name K (trace w) nlh (DstName i) = Inr iface"
    and t1: "t1 = [CLinkByName nlh (DstName i)]"
    and down: "answer K (trace w @ t1) (CLinkSetDown nlh iface) = None"
    and t2: "t2 = t1 @ [CLinkSetDown nlh iface]"
    and t3: "t3 = t2 @ [CLinkSetName nlh iface (SrcName i)]"
  shows
   "(\<forall>e. answer K (trace w @ t2) (CLinkSetName nlh iface (SrcName i)) = Some e \<longrightarrow>
       Remove K p w =
         (Some (Kernel e), emits (t3 @ [CLog Debugf ''LinkSetName failed for interface %s: %v'']) w)) \<and>
    (answer K (trace w @ t2) (CLinkSetName nlh iface (SrcName i)) = None \<longrightarrow>
       (Bridge i \<and> answer K (trace w @ t3) (CLinkDel nlh iface) = None \<longrightarrow>
          Remove K p w =
            (None, checkLoV6 K ((emits (t3 @ [CLinkDel nlh iface]) w)
                     \<lparr>ns := (ns w)\<lparr>iFaces := remove1 p (iFaces (ns w))\<rparr>\<rparr>))) \<and>
       (\<not> Bridge i \<and> \<not> isDefault (ns w) \<and>
        answer K (trace w @ t3) (CLinkSetNsFd nlh iface (ParseHandlerInt K)) = None \<longrightarrow>
          Remove K p w =
            (None, checkLoV6 K ((emits (t3 @ [CLinkSetNsFd nlh iface (ParseHandlerInt K)]) w)
                     \<lparr>ns := (ns w)\<lparr>iFaces := remove1 p (iFaces (ns w))\<rparr>\<rparr>))) \<and>
       (\<not> Bridge i \<and> isDefault (ns w) \<longrightarrow>
          Remove K p w =
            (None, checkLoV6 K ((emits t3 w)
                     \<lparr>ns := (ns w)\<lparr>iFaces := remove1 p (iFaces (ns w))\<rparr>\<rparr>))))"
  using valid found down
  unfolding Remove_def Let_def LinkByName_def call_defs nlcall_def i nlh t1 t2 t3
  by (simp add: emit_def emits_def removeLoop_remove1)

text \<open>In a namespace that holds two entities of the same names at the pointers 0 and 1,
  removing the entity at 1 moves the device back and leaves the pointer 0 in the
  collection. Removing a bridge deletes the device. On a kernel that refuses the rename,
  the removal stops there with that error and the collection is as before.\<close>

theorem remove_sequence_witness:
  "Remove kernel_ok 1 sandbox_twins =
     (None, checkLoV6 kernel_ok
        ((emits [CLinkByName 1 ''eth0'', CLinkSetDown 1 (link_named ''eth0''),
                 CLinkSetName 1 (link_named ''eth0'') ''veth0'',
                 CLinkSetNsFd 1 (link_named ''eth0'') 3] sandbox_twins)
           \<lparr>ns := (ns sandbox_twins)\<lparr>iFaces := [0]\<rparr>\<rparr>)) \<and>
   Remove kernel_ok 0 sandbox_bridge =
     (None, checkLoV6 kernel_ok
        ((emits [CLinkByName 1 ''br0'', CLinkSetDown 1 (link_named ''br0''),
                 CLinkSetName 1 (link_named ''br0'') ''br'',
                 CLinkDel 1 (link_named ''br0'')] sandbox_bridge)
           \<lparr>ns := (ns sandbox_bridge)\<lparr>iFaces := []\<rparr>\<rparr>)) \<and>
   Remove kernel_no_rename 1 sandbox_twins =
     (Some (Kernel (Kerr ''EBUSY'')),
      emits [CLinkByName 1 ''eth0'', CLinkSetDown 1 (link_named ''eth0''),
             CLinkSetName 1 (link_named ''eth0'') ''veth0'',
             CLog Debugf ''LinkSetName failed for interface %s: %v''] sandbox_twins)"
proof -
  have tw: "heap sandbox_twins ! Suc 0 = iface_bare" "nlHandle (ns sandbox_twins) = 1"
    "length (heap sandbox_twins) = 2" "iFaces (ns sandbox_twins) = [0, 1]"
    "\<not> isDefault (ns sandbox_twins)" "trace sandbox_twins = []"
    by (simp_all add: sandbox_twins_def sandbox_def)
  have br: "heap sandbox_bridge ! 0 = iface_bare\<lparr>srcName := ''br'', dstName := ''br0'', bridge := True\<rparr>"
    "nlHandle (ns sandbox_bridge) = 1" "length (heap sandbox_bridge) = 1"
    "iFaces (ns sandbox_bridge) = [0]" "trace sandbox_bridge = []"
    by (simp_all add: sandbox_bridge_def sandbox_def)
  have names: "DstName iface_bare = ''eth0''" "SrcName iface_bare = ''veth0''"
    "\<not> Bridge iface_bare"
    by (simp_all add: DstName_def SrcName_def Bridge_def iface_bare_def)
  have ok: "\<And>t c. answer kernel_ok t c = None" "ParseHandlerInt kernel_ok = 3"
    "\<And>t h n. link_by_name kernel_ok t h n = Inr (link_named n)"
    by (simp_all add: kernel_ok_def link_named_def)
  have no: "\<And>t h l. answer kernel_no_rename t (CLinkSetDown h l) = None"
    "\<And>t h l n. answer kernel_no_rename t (CLinkSetName h l n) = Some (Kerr ''EBUSY'')"
    "\<And>t h n. link_by_name kernel_no_rename t h n = Inr (link_named n)"
    by (simp_all add: kernel_no_rename_def kernel_ok_def link_named_def)
  note R = remove_sequence [OF _ refl refl _ refl _ refl refl]
  have 1: "Remove kernel_ok 1 sandbox_twins =
     (None, checkLoV6 kernel_ok
        ((emits [CLinkByName 1 ''eth0'', CLinkSetDown 1 (link_named ''eth0''),
                 CLinkSetName 1 (link_named ''eth0'') ''veth0'',
                 CLinkSetNsFd 1 (link_named ''eth0'') 3] sandbox_twins)
           \<lparr>ns := (ns sandbox_twins)\<lparr>iFaces := [0]\<rparr>\<rparr>))"
    using R [of 1 sandbox_twins kernel_ok "link_named ''eth0''"]
    by (simp add: tw names ok)
  have 2: "Remove kernel_ok 0 sandbox_bridge =
     (None, checkLoV6 kernel_ok
        ((emits [CLinkByName 1 ''br0'', CLinkSetDown 1 (link_named ''br0''),
                 CLinkSetName 1 (link_named ''br0'') ''br'',
                 CLinkDel 1 (link_named ''br0'')] sandbox_bridge)
           \<lparr>ns := (ns sandbox_bridge)\<lparr>iFaces := []\<rparr>\<rparr>))"
    using R [of 0 sandbox_bridge kernel_ok "link_named ''br0''"]
    by (simp add: br ok DstName_def SrcName_def Bridge_def iface_bare_def)
  have 3: "Remove kernel_no_rename 1 sandbox_twins =
     (Some (Kernel (Kerr ''EBUSY'')),
      emits [CLinkByName 1 ''eth0'', CLinkSetDown 1 (link_named ''eth0''),
             CLinkSetName 1 (link_named ''eth0'') ''veth0'',
             CLog Debugf ''LinkSetName failed for interface %s: %v''] sandbox_twins)"
    using R [of 1 sandbox_twins kernel_no_rename "link_named ''eth0''"]
    by (simp add: tw names no)
  from 1 2 3 show ?thesis by blast
qed


section \<open>C7: \<^verbatim>\<open>Statistics\<close>\<close>

text \<open>
  C7. \<^verbatim>\<open>Statistics\<close> looks the device up by the destination name of the entity, and makes
  no other call. If the lookup fails, the result is the lookup error with the name, the
  path of the namespace and the error of the kernel. If the device has no statistics,
  the result is the error that no statistics were returned. Otherwise the result is a
  record whose six counters are those the kernel reported.
\<close>

theorem statistics_of_device:
  assumes valid: "p < length (heap w)"
    and i: "i = heap w ! p"
  shows
   "snd (Statistics K p w) = emit (CLinkByName (nlHandle (ns w)) (DstName i)) w \<and>
    (\<forall>e. link_by_name K (trace w) (nlHandle (ns w)) (DstName i) = Inl e \<longrightarrow>
       fst (Statistics K p w) = Inl (FailedStatistics (DstName i) (path (ns w)) (Kernel e))) \<and>
    (\<forall>l. link_by_name K (trace w) (nlHandle (ns w)) (DstName i) = Inr l \<longrightarrow>
       (attrs_Statistics l = None \<longrightarrow> fst (Statistics K p w) = Inl NoStatistics) \<and>
       (\<forall>stats. attrs_Statistics l = Some stats \<longrightarrow>
          fst (Statistics K p w) =
            Inr \<lparr>RxBytes = nl_RxBytes stats, TxBytes = nl_TxBytes stats,
                 RxPackets = nl_RxPackets stats, TxPackets = nl_TxPackets stats,
                 RxDropped = nl_RxDropped stats, TxDropped = nl_TxDropped stats\<rparr>))"
  using valid unfolding Statistics_def Let_def LinkByName_def i
  by (cases "link_by_name K (trace w) (nlHandle (ns w)) (DstName (heap w ! p))")
     (auto split: option.splits)

text \<open>On a kernel that knows no device the lookup error comes back; a device without
  statistics gives the second error; a device with statistics gives its counters.\<close>

theorem statistics_of_device_witness:
  "fst (Statistics kernel_no_device 0 sandbox_bridge) =
     Inl (FailedStatistics ''br0'' ''/var/run/docker/netns/sb'' (Kernel (Kerr ''ENODEV''))) \<and>
   fst (Statistics kernel_ok 0 sandbox_bridge) = Inl NoStatistics \<and>
   fst (Statistics kernel_stats 0 sandbox_bridge) =
     Inr \<lparr>RxBytes = 1500, TxBytes = 900, RxPackets = 12, TxPackets = 9,
          RxDropped = 1, TxDropped = 0\<rparr> \<and>
   trace (snd (Statistics kernel_stats 0 sandbox_bridge)) = [CLinkByName 1 ''br0'']"
proof -
  have v: "0 < length (heap sandbox_bridge)"
    by (simp add: sandbox_bridge_def)
  have d: "DstName (heap sandbox_bridge ! 0) = ''br0''" "path (ns sandbox_bridge) = ''/var/run/docker/netns/sb''"
    "nlHandle (ns sandbox_bridge) = 1" "trace sandbox_bridge = []"
    by (simp_all add: sandbox_bridge_def sandbox_def DstName_def iface_bare_def)
  have k: "\<And>t h n. link_by_name kernel_no_device t h n = Inl (Kerr ''ENODEV'')"
    "\<And>t h n. link_by_name kernel_ok t h n = Inr (link_named n)"
    "\<And>t h n. link_by_name kernel_stats t h n =
        Inr \<lparr>attrs_Name = n, attrs_Index = 7, attrs_Statistics = Some stats_example\<rparr>"
    by (simp_all add: kernel_no_device_def kernel_stats_def kernel_ok_def link_named_def)
  note S = statistics_of_device [OF v refl]
  from S [of kernel_no_device] have 1: "fst (Statistics kernel_no_device 0 sandbox_bridge) =
     Inl (FailedStatistics ''br0'' ''/var/run/docker/netns/sb'' (Kernel (Kerr ''ENODEV'')))"
    by (simp add: d k)
  from S [of kernel_ok] have 2: "fst (Statistics kernel_ok 0 sandbox_bridge) = Inl NoStatistics"
    by (simp add: d k link_named_def)
  from S [of kernel_stats] have 3: "fst (Statistics kernel_stats 0 sandbox_bridge) =
     Inr \<lparr>RxBytes = 1500, TxBytes = 900, RxPackets = 12, TxPackets = 9,
          RxDropped = 1, TxDropped = 0\<rparr>"
    and 4: "trace (snd (Statistics kernel_stats 0 sandbox_bridge)) = [CLinkByName 1 ''br0'']"
    by (simp_all add: d k stats_example_def)
  from 1 2 3 4 show ?thesis by blast
qed


section \<open>C9: a failed \<^verbatim>\<open>Remove\<close> leaves the registry as it was\<close>

text \<open>
  C9. Whenever \<^verbatim>\<open>Remove\<close> returns an error, the namespace (its collection, its counters
  and every other field) and every entity are what they were before the call. And
  \<^verbatim>\<open>Remove\<close> returns an error when a step fails: the error of the kernel when the lookup
  by destination name, the setting down, the rename or the move to the namespace of the
  caller fails, and that error wrapped in the message about the bridge when the deletion
  of a bridge fails.
\<close>

theorem remove_failure_keeps_registry:
  assumes i: "i = heap w ! p" and nlh: "nlh = nlHandle (ns w)"
    and t1: "t1 = trace w @ [CLinkByName nlh (DstName i)]"
    and t2: "t2 = t1 @ [CLinkSetDown nlh iface]"
    and t3: "t3 = t2 @ [CLinkSetName nlh iface (SrcName i)]"
  shows
   "(\<forall>err w'. Remove K p w = (Some err, w') \<longrightarrow> ns w' = ns w \<and> heap w' = heap w) \<and>
    (p < length (heap w) \<longrightarrow>
       (\<forall>e. link_by_name K (trace w) nlh (DstName i) = Inl e \<longrightarrow>
          fst (Remove K p w) = Some (Kernel e)) \<and>
       (link_by_name K (trace w) nlh (DstName i) = Inr iface \<longrightarrow>
          (\<forall>e. answer K t1 (CLinkSetDown nlh iface) = Some e \<longrightarrow>
             fst (Remove K p w) = Some (Kernel e)) \<and>
          (answer K t1 (CLinkSetDown nlh iface) = None \<longrightarrow>
             (\<forall>e. answer K t2 (CLinkSetName nlh iface (SrcName i)) = Some e \<longrightarrow>
                fst (Remove K p w) = Some (Kernel e)) \<and>
             (answer K t2 (CLinkSetName nlh iface (SrcName i)) = None \<longrightarrow>
                (\<forall>e. Bridge i \<and> answer K t3 (CLinkDel nlh iface) = Some e \<longrightarrow>
                   fst (Remove K p w) = Some (FailedDeletingBridge (SrcName i) (Kernel e))) \<and>
                (\<forall>e. \<not> Bridge i \<and> \<not> isDefault (ns w) \<and>
                     answer K t3 (CLinkSetNsFd nlh iface (ParseHandlerInt K)) = Some e \<longrightarrow>
                   fst (Remove K p w) = Some (Kernel e))))))"
proof (intro conjI allI impI)
  fix err w'
  assume "Remove K p w = (Some err, w')"
  then show "ns w' = ns w" and "heap w' = heap w"
    unfolding Remove_def Let_def LinkByName_def call_defs nlcall_def
    by (auto split: if_splits sum.splits option.splits prod.splits)
qed (auto simp: Remove_def Let_def LinkByName_def call_defs nlcall_def i nlh t1 t2 t3)

text \<open>Five kernels, each failing one step: in every case the error comes back, and the
  collection and the entities are those of before.\<close>

theorem remove_failure_keeps_registry_witness:
  "fst (Remove kernel_no_device 1 sandbox_twins) = Some (Kernel (Kerr ''ENODEV'')) \<and>
   ns (snd (Remove kernel_no_device 1 sandbox_twins)) = ns sandbox_twins \<and>
   heap (snd (Remove kernel_no_device 1 sandbox_twins)) = heap sandbox_twins \<and>
   fst (Remove (kernel_refusing (CLinkSetDown 1 (link_named ''eth0''))) 1 sandbox_twins) =
     Some (Kernel (Kerr ''EIO'')) \<and>
   iFaces (ns (snd (Remove (kernel_refusing (CLinkSetDown 1 (link_named ''eth0''))) 1 sandbox_twins))) =
     [0, 1] \<and>
   fst (Remove kernel_no_rename 1 sandbox_twins) = Some (Kernel (Kerr ''EBUSY'')) \<and>
   iFaces (ns (snd (Remove kernel_no_rename 1 sandbox_twins))) = [0, 1] \<and>
   fst (Remove (kernel_refusing (CLinkDel 1 (link_named ''br0''))) 0 sandbox_bridge) =
     Some (FailedDeletingBridge ''br'' (Kernel (Kerr ''EIO''))) \<and>
   iFaces (ns (snd (Remove (kernel_refusing (CLinkDel 1 (link_named ''br0''))) 0 sandbox_bridge))) =
     [0] \<and>
   fst (Remove (kernel_refusing (CLinkSetNsFd 1 (link_named ''eth0'') 3)) 1 sandbox_twins) =
     Some (Kernel (Kerr ''EIO'')) \<and>
   iFaces (ns (snd (Remove (kernel_refusing (CLinkSetNsFd 1 (link_named ''eth0'') 3)) 1 sandbox_twins))) =
     [0, 1]"
proof -
  note R = remove_failure_keeps_registry [OF refl refl refl refl refl, THEN conjunct1, rule_format]
  have keep: "ns (snd (Remove K p w)) = ns w \<and> heap (snd (Remove K p w)) = heap w"
    if "fst (Remove K p w) = Some e" for K p w e
  proof -
    from that have "Remove K p w = (Some e, snd (Remove K p w))" by (metis prod.collapse)
    then show ?thesis by (rule R)
  qed
  have tw: "iFaces (ns sandbox_twins) = [0, 1]" and br: "iFaces (ns sandbox_bridge) = [0]"
    by (simp_all add: sandbox_twins_def sandbox_bridge_def)
  have 1: "fst (Remove kernel_no_device 1 sandbox_twins) = Some (Kernel (Kerr ''ENODEV''))"
    by code_simp
  have 2: "fst (Remove (kernel_refusing (CLinkSetDown 1 (link_named ''eth0''))) 1 sandbox_twins) =
     Some (Kernel (Kerr ''EIO''))"
    by code_simp
  have 3: "fst (Remove kernel_no_rename 1 sandbox_twins) = Some (Kernel (Kerr ''EBUSY''))"
    by code_simp
  have 4: "fst (Remove (kernel_refusing (CLinkDel 1 (link_named ''br0''))) 0 sandbox_bridge) =
     Some (FailedDeletingBridge ''br'' (Kernel (Kerr ''EIO'')))"
    by code_simp
  have 5: "fst (Remove (kernel_refusing (CLinkSetNsFd 1 (link_named ''eth0'') 3)) 1 sandbox_twins) =
     Some (Kernel (Kerr ''EIO''))"
    by code_simp
  from keep [OF 1] keep [OF 2] keep [OF 3] keep [OF 4] keep [OF 5] 1 2 3 4 5 tw br
  show ?thesis by simp
qed


section \<open>C2: the destination names\<close>

text \<open>
  C2 says that the destination names returned across any sequence of calls are unique.
  They are not: the name is the prefix followed by the decimal counter of the prefix, so
  the eleventh name of the prefix \<open>eth\<close> and the first name of the prefix \<open>eth1\<close> are
  both \<open>eth10\<close>. Twelve calls on a fresh namespace, all successful, register two
  entities of that name.
\<close>

theorem destination_names_collide:
  "(case AddInterfaces kernel_ok twelve_calls sandbox of
      (rs, w') \<Rightarrow>
        list_all (\<lambda>r. r = None) rs \<and>
        iFaces (ns w') = [0, 1, 2, 3, 4, 5, 6, 7, 8, 9, 10, 11] \<and>
        dstName (heap w' ! 10) = ''eth10'' \<and>
        dstName (heap w' ! 11) = ''eth10'')"
  by code_simp

text \<open>
  C2, amended. Take any sequence of calls of \<^verbatim>\<open>AddInterface\<close> on one namespace, and a
  call of it, with source name \<open>s\<close> and prefix \<open>pfx\<close>, that got past the resolution of
  its master; let \<open>n\<close> be the number of earlier calls of the sequence with this prefix
  that did so too. In the default namespace the destination name of its entity is its
  source name, whatever the prefix. Otherwise it is the prefix followed by the counter of
  the prefix before the sequence plus \<open>n\<close>, printed in decimal: on a fresh counter and
  for \<open>n < 2^63\<close> this is the prefix followed by \<open>n\<close>. Every such call adds one to the
  counter of its prefix and nothing else changes a counter. The names given to one
  prefix are pairwise distinct (as long as fewer than \<open>2^64\<close> were given), and so are
  the names given to prefixes that do not end in a digit (on a fresh namespace with
  fewer than \<open>2^63\<close> calls); two names given to different prefixes at the same value
  of their counters are distinct, so the names of a sequence whose prefixes all differ
  are; other names given to different prefixes can coincide. A call that fails after the
  resolution of its master has used up its number all the same.
\<close>

theorem destination_names:
  assumes run: "AddInterfaces K cs w0 = (rs, w')"
    and j: "j < length cs" and cj: "cs ! j = (s, pfx, os)" and al: "allocated (rs ! j)"
    and n: "n = allocations cs rs pfx j"
    and e: "entity = (\<lambda>k. heap w' ! (length (heap w0) + k))"
  shows
   "srcName (entity j) = s \<and>
    (isDefault (ns w0) \<longrightarrow> dstName (entity j) = s) \<and>
    (\<not> isDefault (ns w0) \<longrightarrow>
       dstName (entity j) = Sprintf_sd pfx (nextIfIndex (ns w0) pfx + of_nat n) \<and>
       (nextIfIndex (ns w0) pfx = 0 \<and> n < 2 ^ 63 \<longrightarrow> dstName (entity j) = pfx @ decimal n) \<and>
       (\<forall>q. nextIfIndex (ns w') q =
              nextIfIndex (ns w0) q + of_nat (allocations cs rs q (length cs))) \<and>
       (\<forall>i s' os'. i < j \<and> cs ! i = (s', pfx, os') \<and> allocated (rs ! i) \<and> n < 2 ^ 64 \<longrightarrow>
          dstName (entity i) \<noteq> dstName (entity j)) \<and>
       (\<forall>i s' pfx' os'. i < j \<and> cs ! i = (s', pfx', os') \<and> allocated (rs ! i) \<and>
            nextIfIndex (ns w0) = (\<lambda>q. 0) \<and> length cs < 2 ^ 63 \<and>
            \<not> endsInDigit pfx \<and> \<not> endsInDigit pfx' \<longrightarrow>
          dstName (entity i) \<noteq> dstName (entity j)) \<and>
       (\<forall>i s' pfx' os'. i < j \<and> cs ! i = (s', pfx', os') \<and> allocated (rs ! i) \<and>
            pfx' \<noteq> pfx \<and>
            nextIfIndex (ns w0) pfx' + of_nat (allocations cs rs pfx' i) =
              nextIfIndex (ns w0) pfx + of_nat n \<longrightarrow>
          dstName (entity i) \<noteq> dstName (entity j)))"
proof -
  note I = AddInterfaces_inv [OF run]
  from I have len: "length rs = length cs" by simp
  from I j cj have src: "srcName (entity j) = s" unfolding e by blast
  from I j cj al have name: "dstName (entity j) =
      (if isDefault (ns w0) then s
       else Sprintf_sd pfx (nextIfIndex (ns w0) pfx + of_nat n))"
    unfolding e n by blast
  have name': "dstName (entity i) =
      Sprintf_sd q (nextIfIndex (ns w0) q + of_nat (allocations cs rs q i))"
    if "\<not> isDefault (ns w0)" "i < j" "cs ! i = (s', q, os')" "allocated (rs ! i)" for i s' q os'
  proof -
    from that(2) j have "i < length cs" by simp
    with I that(1,3,4) show ?thesis unfolding e by (metis (no_types, lifting))
  qed
  have less: "allocations cs rs pfx i < n"
    if "i < j" "cs ! i = (s', pfx, os')" "allocated (rs ! i)" for i s' os'
  proof -
    from that(1) j have i: "i < length cs" by simp
    have "allocations cs rs pfx (Suc i) = Suc (allocations cs rs pfx i)"
      by (rule allocations_Suc [OF i len]) (simp_all add: that)
    moreover have "allocations cs rs pfx (Suc i) \<le> allocations cs rs pfx j"
      by (rule allocations_mono) (use that(1) in simp)
    ultimately show ?thesis unfolding n by simp
  qed
  have same: "dstName (entity i) \<noteq> dstName (entity j)"
    if "\<not> isDefault (ns w0)" "i < j" "cs ! i = (s', pfx, os')" "allocated (rs ! i)" "n < 2 ^ 64"
    for i s' os'
  proof
    assume "dstName (entity i) = dstName (entity j)"
    with name name' [OF that(1-4)] that(1)
    have "nextIfIndex (ns w0) pfx + of_nat (allocations cs rs pfx i) =
          nextIfIndex (ns w0) pfx + of_nat n"
      by (auto dest: Sprintf_sd_inj)
    then have "(of_nat (allocations cs rs pfx i) :: 64 word) = of_nat n" by simp
    then have "unat (of_nat (allocations cs rs pfx i) :: 64 word) = unat (of_nat n :: 64 word)"
      by simp
    moreover have "allocations cs rs pfx i < 2 ^ 64"
      using less [OF that(2-4)] that(5) by simp
    ultimately have "allocations cs rs pfx i = n"
      using that(5) by (simp add: unat_of_nat take_bit_nat_eq_self)
    with less [OF that(2-4)] show False by simp
  qed
  have cross: "dstName (entity i) \<noteq> dstName (entity j)"
    if "\<not> isDefault (ns w0)" "i < j" "cs ! i = (s', pfx', os')" "allocated (rs ! i)"
      "nextIfIndex (ns w0) = (\<lambda>q. 0)" "length cs < 2 ^ 63"
      "\<not> endsInDigit pfx" "\<not> endsInDigit pfx'"
    for i s' pfx' os'
  proof -
    have b: "allocations cs rs q k < 2 ^ 63" for q k
      using allocations_le [of cs rs q k] that(6) by simp
    have nj: "dstName (entity j) = pfx @ decimal n"
      using name that(1,5) b [of pfx j] by (simp add: n Sprintf_sd_nonneg)
    have ni: "dstName (entity i) = pfx' @ decimal (allocations cs rs pfx' i)"
      using name' [OF that(1-4)] that(5) b [of pfx' i] by (simp add: Sprintf_sd_nonneg)
    have "pfx' \<noteq> pfx \<or> allocations cs rs pfx' i \<noteq> n"
      using less [OF that(2) _ that(4)] that(3) by (cases "pfx' = pfx") auto
    from names_differ [OF that(8,7) this] nj ni show ?thesis by simp
  qed
  have fresh: "dstName (entity j) = pfx @ decimal n"
    if "\<not> isDefault (ns w0)" "nextIfIndex (ns w0) pfx = 0" "n < 2 ^ 63"
    using name that by (simp add: Sprintf_sd_nonneg)
  have cnt: "nextIfIndex (ns w') q =
      nextIfIndex (ns w0) q + of_nat (allocations cs rs q (length cs))"
    if "\<not> isDefault (ns w0)" for q
    using I that by simp
  have level: "dstName (entity i) \<noteq> dstName (entity j)"
    if "\<not> isDefault (ns w0)" "i < j" "cs ! i = (s', pfx', os')" "allocated (rs ! i)"
      "pfx' \<noteq> pfx"
      "nextIfIndex (ns w0) pfx' + of_nat (allocations cs rs pfx' i) =
         nextIfIndex (ns w0) pfx + of_nat n"
    for i s' pfx' os'
    using name name' [OF that(1-4)] that(1,5,6) by (simp add: Sprintf_sd_def)
  from src name same cross fresh cnt level show ?thesis
    by (intro conjI impI allI) (simp, simp, simp, blast, blast, blast, blast, blast)
qed

text \<open>Four calls with the prefix \<open>eth\<close> on a fresh namespace, the third of which fails to
  find its master: the fourth is named \<open>eth2\<close>, for the two allocations before it, and
  differs from the first; the counter ends at 3. In the default namespace the fourth is
  named by its source name. When the kernel finds no device the other three calls fail
  too, after their names were made: nothing is registered, and the entity of the fourth
  call is named \<open>eth2\<close> again.\<close>

theorem destination_names_witness:
  "fst (AddInterfaces kernel_ok four_calls sandbox) =
     [None, None, Some (MasterNotFound ''br'' ''veth2''), None] \<and>
   dstName (heap (snd (AddInterfaces kernel_ok four_calls sandbox)) ! 3) = ''eth2'' \<and>
   dstName (heap (snd (AddInterfaces kernel_ok four_calls sandbox)) ! 0) \<noteq>
     dstName (heap (snd (AddInterfaces kernel_ok four_calls sandbox)) ! 3) \<and>
   nextIfIndex (ns (snd (AddInterfaces kernel_ok four_calls sandbox))) ''eth'' = 3 \<and>
   dstName (heap (snd (AddInterfaces kernel_ok four_calls default_ns)) ! 3) = ''veth3'' \<and>
   fst (AddInterfaces kernel_no_device four_calls sandbox) =
     [Some (FailedGetLink ''veth0'' (Kernel (Kerr ''ENODEV''))),
      Some (FailedGetLink ''veth1'' (Kernel (Kerr ''ENODEV''))),
      Some (MasterNotFound ''br'' ''veth2''),
      Some (FailedGetLink ''veth3'' (Kernel (Kerr ''ENODEV'')))] \<and>
   iFaces (ns (snd (AddInterfaces kernel_no_device four_calls sandbox))) = [] \<and>
   dstName (heap (snd (AddInterfaces kernel_no_device four_calls sandbox)) ! 3) = ''eth2''"
proof -
  let ?rs = "[None, None, Some (MasterNotFound ''br'' ''veth2''), None]"
  let ?A = "AddInterfaces kernel_ok four_calls sandbox"
  let ?D = "AddInterfaces kernel_ok four_calls default_ns"
  have r: "fst ?A = ?rs" by code_simp
  then have run: "?A = (?rs, snd ?A)" by (metis prod.collapse)
  have rd: "fst ?D = ?rs" by code_simp
  then have rund: "?D = (?rs, snd ?D)" by (metis prod.collapse)
  have j: "3 < length four_calls" and cj: "four_calls ! 3 = (''veth3'', ''eth'', [])"
    and c0: "four_calls ! 0 = (''veth0'', ''eth'', [])"
    by (simp_all add: four_calls_def)
  have al: "allocated (?rs ! 3)" "allocated (?rs ! 0)" by (simp_all add: allocated_def)
  have n: "allocations four_calls ?rs ''eth'' 3 = 2" "allocations four_calls ?rs ''eth'' (length four_calls) = 3"
    by (simp_all add: allocations_def four_calls_def allocated_def numeral_3_eq_3)
  have w: "\<not> isDefault (ns sandbox)" "nextIfIndex (ns sandbox) ''eth'' = 0" "length (heap sandbox) = 0"
    "isDefault (ns default_ns)" "length (heap default_ns) = 0"
    by (simp_all add: sandbox_def default_ns_def)
  note T = destination_names [OF run j cj al(1) refl refl]
  note TD = destination_names [OF rund j cj al(1) refl refl]
  have sp: "Sprintf_sd ''eth'' 2 = ''eth2''"
    by (simp add: Sprintf_sd_def decimal.simps)
  from T w n have 1: "dstName (heap (snd ?A) ! 3) = ''eth2''"
    by (simp add: sp)
  from T w n have 3: "nextIfIndex (ns (snd ?A)) ''eth'' = 3"
    by simp
  note U = T [THEN conjunct2, THEN conjunct2, rule_format, OF w(1)]
  note U4 = U [THEN conjunct2, THEN conjunct2, THEN conjunct2, THEN conjunct1, rule_format,
      of 0 "''veth0''" "[]"]
  from U4 c0 al(2) n w have 2: "dstName (heap (snd ?A) ! 0) \<noteq> dstName (heap (snd ?A) ! 3)"
    by simp
  from TD w have 4: "dstName (heap (snd ?D) ! 3) = ''veth3''" by simp
  let ?rn = "[Some (FailedGetLink ''veth0'' (Kernel (Kerr ''ENODEV''))),
      Some (FailedGetLink ''veth1'' (Kernel (Kerr ''ENODEV''))),
      Some (MasterNotFound ''br'' ''veth2''),
      Some (FailedGetLink ''veth3'' (Kernel (Kerr ''ENODEV'')))]"
  let ?N = "AddInterfaces kernel_no_device four_calls sandbox"
  have rn: "fst ?N = ?rn" by code_simp
  then have runn: "?N = (?rn, snd ?N)" by (metis prod.collapse)
  have 5: "iFaces (ns (snd ?N)) = []" by code_simp
  have aln: "allocated (?rn ! 3)" by (simp add: allocated_def)
  have nn: "allocations four_calls ?rn ''eth'' 3 = 2"
    by (simp add: allocations_def four_calls_def allocated_def numeral_3_eq_3)
  note TN = destination_names [OF runn j cj aln refl refl]
  from TN w nn have 6: "dstName (heap (snd ?N) ! 3) = ''eth2''"
    by (simp add: sp)
  from r 1 2 3 4 rn 5 6 show ?thesis by simp
qed


section \<open>The accessors and the store\<close>

text \<open>
  The fields \<^verbatim>\<open>mac\<close>, \<^verbatim>\<open>address\<close>, \<^verbatim>\<open>addressIPv6\<close>, \<^verbatim>\<open>llAddrs\<close> and \<^verbatim>\<open>routes\<close> of an
  entity are references: byte slices, pointers to \<^verbatim>\<open>net.IPNet\<close> and slices of such
  pointers. What an accessor hands out matters only through the store, so this section
  models it: byte arrays, \<^verbatim>\<open>IPNet\<close> structures and arrays of pointers, each kind in a
  list of its own, a reference being an index. An allocation appends to the list, and
  nothing is freed. A slice is \<^verbatim>\<open>nil\<close> or the reference to its backing array; every
  slice of the model spans its array.
\<close>

type_synonym ref = nat

text \<open>A \<^verbatim>\<open>net.IPNet\<close> in memory: its two byte slices.\<close>

record IPNetRefs =
  IP_ref :: "ref option"
  Mask_ref :: "ref option"

record store =
  byteArrays :: "byte list list"
  ipnets :: "IPNetRefs list"
  ptrArrays :: "ref option list list"

text \<open>The five reference fields of an entity, lines 27-31.\<close>

record nwIfaceRefs =
  mac_ref :: "ref option"
  address_ref :: "ref option"
  addressIPv6_ref :: "ref option"
  llAddrs_ref :: "ref option"
  routes_ref :: "ref option"

text \<open>Modelled from the spec: \<^verbatim>\<open>types.GetMacCopy\<close> and \<^verbatim>\<open>types.GetIPNetCopy\<close> (with
  \<^verbatim>\<open>GetIPCopy\<close> for the address in it) are declared outside the file. The spec calls them
  copy-safety helpers whose result is an independent copy: \<^verbatim>\<open>nil\<close> for \<^verbatim>\<open>nil\<close>, and
  otherwise a newly allocated object with the contents of the argument; the copy of an
  \<^verbatim>\<open>IPNet\<close> is a new structure over new copies of its address and its mask.\<close>

definition GetMacCopy :: "ref option \<Rightarrow> store \<Rightarrow> ref option \<times> store" where
  "GetMacCopy from st =
     (case from of
        None \<Rightarrow> (None, st)
      | Some a \<Rightarrow>
          (Some (length (byteArrays st)),
           st\<lparr>byteArrays := byteArrays st @ [byteArrays st ! a]\<rparr>))"

definition GetIPCopy :: "ref option \<Rightarrow> store \<Rightarrow> ref option \<times> store" where
  "GetIPCopy from st =
     (case from of
        None \<Rightarrow> (None, st)
      | Some a \<Rightarrow>
          (Some (length (byteArrays st)),
           st\<lparr>byteArrays := byteArrays st @ [byteArrays st ! a]\<rparr>))"

definition GetIPNetCopy :: "ref option \<Rightarrow> store \<Rightarrow> ref option \<times> store" where
  "GetIPNetCopy from st =
     (case from of
        None \<Rightarrow> (None, st)
      | Some p \<Rightarrow>
          (case GetIPCopy (Mask_ref (ipnets st ! p)) st of
             (bm, st1) \<Rightarrow>
               (case GetIPCopy (IP_ref (ipnets st ! p)) st1 of
                  (ip, st2) \<Rightarrow>
                    (Some (length (ipnets st2)),
                     st2\<lparr>ipnets := ipnets st2 @ [\<lparr>IP_ref = ip, Mask_ref = bm\<rparr>]\<rparr>))))"

text \<open>The accessors of lines 63-91 on the store; the result is the reference and the store
  after the call. \<^verbatim>\<open>LinkLocalAddresses\<close> returns the field. \<^verbatim>\<open>Routes\<close> makes a new array of
  the length of the field and fills it, index by index, with copies.\<close>

definition MacAddress_ref :: "nwIfaceRefs \<Rightarrow> store \<Rightarrow> ref option \<times> store" where
  "MacAddress_ref i st = GetMacCopy (mac_ref i) st"

definition Address_ref :: "nwIfaceRefs \<Rightarrow> store \<Rightarrow> ref option \<times> store" where
  "Address_ref i st = GetIPNetCopy (address_ref i) st"

definition AddressIPv6_ref :: "nwIfaceRefs \<Rightarrow> store \<Rightarrow> ref option \<times> store" where
  "AddressIPv6_ref i st = GetIPNetCopy (addressIPv6_ref i) st"

definition LinkLocalAddresses_ref :: "nwIfaceRefs \<Rightarrow> store \<Rightarrow> ref option \<times> store" where
  "LinkLocalAddresses_ref i st = (llAddrs_ref i, st)"

fun routesLoop :: "ref \<Rightarrow> nat \<Rightarrow> ref option list \<Rightarrow> store \<Rightarrow> store" where
  "routesLoop routes' index [] st = st"
| "routesLoop routes' index (route # rest) st =
     (case GetIPNetCopy route st of
        (c, st1) \<Rightarrow>
          routesLoop routes' (index + 1) rest
            (st1\<lparr>ptrArrays := (ptrArrays st1)[routes' := (ptrArrays st1 ! routes')[index := c]]\<rparr>))"

definition Routes_ref :: "nwIfaceRefs \<Rightarrow> store \<Rightarrow> ref option \<times> store" where
  "Routes_ref i st =
     (let elems = (case routes_ref i of None \<Rightarrow> [] | Some a \<Rightarrow> ptrArrays st ! a);
          routes' = length (ptrArrays st);
          st1 = st\<lparr>ptrArrays := ptrArrays st @ [replicate (length elems) None]\<rparr>
      in (Some routes', routesLoop routes' 0 elems st1))"

text \<open>What a reference leads to: the bytes of a slice (\<open>None\<close> for \<^verbatim>\<open>nil\<close>, or the empty
  list where only the contents count), the network behind a pointer, the networks
  behind a slice of pointers. \<open>fromMemory\<close> is the entity of the earlier sections read
  from the store: its five fields hold what the references lead to.\<close>

definition bytesValue :: "store \<Rightarrow> ref option \<Rightarrow> byte list option" where
  "bytesValue st r = map_option (\<lambda>a. byteArrays st ! a) r"

definition sliceBytes :: "store \<Rightarrow> ref option \<Rightarrow> byte list" where
  "sliceBytes st r = (case r of None \<Rightarrow> [] | Some a \<Rightarrow> byteArrays st ! a)"

definition ipnetValue :: "store \<Rightarrow> ref option \<Rightarrow> IPNet option" where
  "ipnetValue st p =
     map_option (\<lambda>a. \<lparr>IP = sliceBytes st (IP_ref (ipnets st ! a)),
                      Mask = sliceBytes st (Mask_ref (ipnets st ! a))\<rparr>) p"

definition ptrsValue :: "store \<Rightarrow> ref option \<Rightarrow> IPNet option list" where
  "ptrsValue st s = (case s of None \<Rightarrow> [] | Some a \<Rightarrow> map (ipnetValue st) (ptrArrays st ! a))"

definition fromMemory :: "store \<Rightarrow> nwIfaceRefs \<Rightarrow> nwIface \<Rightarrow> nwIface" where
  "fromMemory st m i =
     i\<lparr>mac := bytesValue st (mac_ref m),
       address := ipnetValue st (address_ref m),
       addressIPv6 := ipnetValue st (addressIPv6_ref m),
       llAddrs := ptrsValue st (llAddrs_ref m),
       routes := ptrsValue st (routes_ref m)\<rparr>"

text \<open>A reference is valid when it is \<^verbatim>\<open>nil\<close> or leads to an object of the store, and so
  do the references in that object. Go has no other references.\<close>

definition validBytes :: "store \<Rightarrow> ref option \<Rightarrow> bool" where
  "validBytes st r = (case r of None \<Rightarrow> True | Some a \<Rightarrow> a < length (byteArrays st))"

definition validNet :: "store \<Rightarrow> ref option \<Rightarrow> bool" where
  "validNet st p =
     (case p of
        None \<Rightarrow> True
      | Some a \<Rightarrow> a < length (ipnets st) \<and> validBytes st (IP_ref (ipnets st ! a)) \<and>
                  validBytes st (Mask_ref (ipnets st ! a)))"

definition validPtrs :: "store \<Rightarrow> ref option \<Rightarrow> bool" where
  "validPtrs st s =
     (case s of
        None \<Rightarrow> True
      | Some a \<Rightarrow> a < length (ptrArrays st) \<and> list_all (validNet st) (ptrArrays st ! a))"

definition validIface :: "store \<Rightarrow> nwIfaceRefs \<Rightarrow> bool" where
  "validIface st m \<longleftrightarrow>
     validBytes st (mac_ref m) \<and> validNet st (address_ref m) \<and>
     validNet st (addressIPv6_ref m) \<and> validPtrs st (llAddrs_ref m) \<and>
     validPtrs st (routes_ref m)"

text \<open>What a holder of a reference can do to the store: write a byte of a byte array,
  assign the address or the mask of an \<^verbatim>\<open>IPNet\<close>, write an element of an array of
  pointers. \<open>target\<close> is the object written; the objects a value leads to are those that
  can be written through it.\<close>

datatype loc = BytesLoc ref | NetLoc ref | PtrsLoc ref

datatype mutation =
    SetByte ref nat byte
  | SetIP ref "ref option"
  | SetMask ref "ref option"
  | SetPtr ref nat "ref option"

fun target :: "mutation \<Rightarrow> loc" where
  "target (SetByte a k b) = BytesLoc a"
| "target (SetIP p s) = NetLoc p"
| "target (SetMask p s) = NetLoc p"
| "target (SetPtr a k p) = PtrsLoc a"

fun mutate :: "mutation \<Rightarrow> store \<Rightarrow> store" where
  "mutate (SetByte a k b) st = st\<lparr>byteArrays := (byteArrays st)[a := (byteArrays st ! a)[k := b]]\<rparr>"
| "mutate (SetIP p s) st = st\<lparr>ipnets := (ipnets st)[p := (ipnets st ! p)\<lparr>IP_ref := s\<rparr>]\<rparr>"
| "mutate (SetMask p s) st = st\<lparr>ipnets := (ipnets st)[p := (ipnets st ! p)\<lparr>Mask_ref := s\<rparr>]\<rparr>"
| "mutate (SetPtr a k p) st = st\<lparr>ptrArrays := (ptrArrays st)[a := (ptrArrays st ! a)[k := p]]\<rparr>"

definition reachBytes :: "ref option \<Rightarrow> loc list" where
  "reachBytes r = (case r of None \<Rightarrow> [] | Some a \<Rightarrow> [BytesLoc a])"

definition reachNet :: "store \<Rightarrow> ref option \<Rightarrow> loc list" where
  "reachNet st p =
     (case p of
        None \<Rightarrow> []
      | Some a \<Rightarrow> NetLoc a # reachBytes (IP_ref (ipnets st ! a)) @ reachBytes (Mask_ref (ipnets st ! a)))"

definition reachPtrs :: "store \<Rightarrow> ref option \<Rightarrow> loc list" where
  "reachPtrs st s =
     (case s of None \<Rightarrow> [] | Some a \<Rightarrow> PtrsLoc a # concat (map (reachNet st) (ptrArrays st ! a)))"

text \<open>An object exists in a store; a list of objects none of which exists in it yet; a
  store that still holds every object of another as it was.\<close>

fun allocatedIn :: "store \<Rightarrow> loc \<Rightarrow> bool" where
  "allocatedIn st (BytesLoc a) \<longleftrightarrow> a < length (byteArrays st)"
| "allocatedIn st (NetLoc a) \<longleftrightarrow> a < length (ipnets st)"
| "allocatedIn st (PtrsLoc a) \<longleftrightarrow> a < length (ptrArrays st)"

definition keepsNets :: "store \<Rightarrow> store \<Rightarrow> bool" where
  "keepsNets st st' \<longleftrightarrow>
     take (length (byteArrays st)) (byteArrays st') = byteArrays st \<and>
     take (length (ipnets st)) (ipnets st') = ipnets st"

definition keeps :: "store \<Rightarrow> store \<Rightarrow> bool" where
  "keeps st st' \<longleftrightarrow>
     keepsNets st st' \<and> take (length (ptrArrays st)) (ptrArrays st') = ptrArrays st"

definition freshFor :: "store \<Rightarrow> loc list \<Rightarrow> bool" where
  "freshFor st ls = list_all (\<lambda>l. \<not> allocatedIn st l) ls"

subsection \<open>Concrete store for the examples\<close>

text \<open>An entity with a hardware address, an IPv4 network, one link-local network and one
  route, and the store that holds them.\<close>

definition store_example :: store where
  "store_example =
     \<lparr>byteArrays =
        [[2, 66, 172, 17, 0, 2],
         [172, 17, 0, 2], [255, 255, 0, 0],
         [169, 254, 0, 2], [255, 255, 0, 0],
         [10, 1, 0, 0], [255, 255, 255, 0]],
      ipnets =
        [\<lparr>IP_ref = Some 1, Mask_ref = Some 2\<rparr>,
         \<lparr>IP_ref = Some 3, Mask_ref = Some 4\<rparr>,
         \<lparr>IP_ref = Some 5, Mask_ref = Some 6\<rparr>],
      ptrArrays = [[Some 1], [Some 2]]\<rparr>"

definition refs_example :: nwIfaceRefs where
  "refs_example =
     \<lparr>mac_ref = Some 0, address_ref = Some 0, addressIPv6_ref = None,
      llAddrs_ref = Some 0, routes_ref = Some 1\<rparr>"

subsection \<open>Facts about the store\<close>

lemma take_prefix_length: "take n ys = xs \<Longrightarrow> length xs \<le> length ys"
  by auto

lemma take_prefix_nth: "take n ys = xs \<Longrightarrow> a < length xs \<Longrightarrow> ys ! a = xs ! a"
  by auto

lemma take_prefix_trans:
  assumes "take (length xs) ys = xs" and "take (length ys) zs = ys"
  shows "take (length xs) zs = xs"
proof -
  have le: "length xs \<le> length ys" using assms(1) by (rule take_prefix_length)
  have "take (length xs) zs = take (length xs) (take (length ys) zs)"
    using le by (simp add: min_def)
  also have "\<dots> = xs" using assms by simp
  finally show ?thesis .
qed

lemma keepsNets_refl [simp]: "keepsNets st st"
  by (simp add: keepsNets_def)

lemma keeps_refl [simp]: "keeps st st"
  by (simp add: keeps_def)

lemma keepsNets_trans:
  assumes "keepsNets st st1" and "keepsNets st1 st2"
  shows "keepsNets st st2"
proof -
  from assms have b1: "take (length (byteArrays st)) (byteArrays st1) = byteArrays st"
    and b2: "take (length (byteArrays st1)) (byteArrays st2) = byteArrays st1"
    and n1: "take (length (ipnets st)) (ipnets st1) = ipnets st"
    and n2: "take (length (ipnets st1)) (ipnets st2) = ipnets st1"
    by (simp_all add: keepsNets_def)
  from take_prefix_trans [OF b1 b2] take_prefix_trans [OF n1 n2] show ?thesis
    by (simp add: keepsNets_def)
qed

lemma keeps_trans:
  assumes "keeps st st1" and "keeps st1 st2"
  shows "keeps st st2"
proof -
  from assms have a: "keepsNets st st1" "keepsNets st1 st2"
    and p1: "take (length (ptrArrays st)) (ptrArrays st1) = ptrArrays st"
    and p2: "take (length (ptrArrays st1)) (ptrArrays st2) = ptrArrays st1"
    by (simp_all add: keeps_def)
  from keepsNets_trans [OF a] take_prefix_trans [OF p1 p2] show ?thesis
    by (simp add: keeps_def)
qed

lemma keepsNets_nth:
  assumes "keepsNets st st'"
  shows "a < length (byteArrays st) \<Longrightarrow> byteArrays st' ! a = byteArrays st ! a"
    and "a < length (ipnets st) \<Longrightarrow> ipnets st' ! a = ipnets st ! a"
    and "length (byteArrays st) \<le> length (byteArrays st')"
    and "length (ipnets st) \<le> length (ipnets st')"
  using assms unfolding keepsNets_def
  by (blast intro: take_prefix_nth take_prefix_length)+

lemma keepsNets_bytes:
  assumes "keepsNets st st'" and "validBytes st r"
  shows "bytesValue st' r = bytesValue st r" and "sliceBytes st' r = sliceBytes st r"
    and "validBytes st' r"
  using assms keepsNets_nth(1,3) [OF assms(1)]
  by (auto simp: bytesValue_def sliceBytes_def validBytes_def split: option.splits)

lemma keepsNets_net:
  assumes "keepsNets st st'" and "validNet st p"
  shows "ipnetValue st' p = ipnetValue st p" and "validNet st' p"
    and "reachNet st' p = reachNet st p"
proof -
  show "ipnetValue st' p = ipnetValue st p"
    using assms keepsNets_nth(2) [OF assms(1)] keepsNets_bytes(2) [OF assms(1)]
    by (cases p) (auto simp: ipnetValue_def validNet_def)
  show "validNet st' p"
    using assms keepsNets_nth(2,4) [OF assms(1)] keepsNets_bytes(3) [OF assms(1)]
    by (cases p) (auto simp: validNet_def)
  show "reachNet st' p = reachNet st p"
    using assms keepsNets_nth(2) [OF assms(1)]
    by (cases p) (auto simp: reachNet_def validNet_def)
qed

lemma keeps_ptrs:
  assumes "keeps st st'" and "validPtrs st s"
  shows "ptrsValue st' s = ptrsValue st s" and "validPtrs st' s"
proof -
  from assms(1) have kn: "keepsNets st st'"
    and kp: "take (length (ptrArrays st)) (ptrArrays st') = ptrArrays st"
    by (simp_all add: keeps_def)
  show "ptrsValue st' s = ptrsValue st s"
  proof (cases s)
    case None
    then show ?thesis by (simp add: ptrsValue_def)
  next
    case (Some a)
    with assms(2) have a: "a < length (ptrArrays st)"
      and v: "list_all (validNet st) (ptrArrays st ! a)" by (simp_all add: validPtrs_def)
    from take_prefix_nth [OF kp a] have "ptrArrays st' ! a = ptrArrays st ! a" .
    moreover have "map (ipnetValue st') (ptrArrays st ! a) = map (ipnetValue st) (ptrArrays st ! a)"
      using v keepsNets_net(1) [OF kn] by (auto simp: list_all_iff)
    ultimately show ?thesis using Some by (simp add: ptrsValue_def)
  qed
  show "validPtrs st' s"
  proof (cases s)
    case None
    then show ?thesis by (simp add: validPtrs_def)
  next
    case (Some a)
    with assms(2) have a: "a < length (ptrArrays st)"
      and v: "list_all (validNet st) (ptrArrays st ! a)" by (simp_all add: validPtrs_def)
    from take_prefix_nth [OF kp a] have "ptrArrays st' ! a = ptrArrays st ! a" .
    moreover have "list_all (validNet st') (ptrArrays st ! a)"
      using v keepsNets_net(2) [OF kn] by (auto simp: list_all_iff)
    moreover have "a < length (ptrArrays st')" using a take_prefix_length [OF kp] by simp
    ultimately show ?thesis using Some by (simp add: validPtrs_def)
  qed
qed

lemma keeps_fromMemory:
  assumes "keeps st st'" and "validIface st m"
  shows "fromMemory st' m i = fromMemory st m i"
proof -
  from assms(1) have kn: "keepsNets st st'" by (simp add: keeps_def)
  from assms(2) show ?thesis
    unfolding fromMemory_def validIface_def
    by (simp add: keepsNets_bytes(1) [OF kn] keepsNets_net(1) [OF kn] keeps_ptrs(1) [OF assms(1)])
qed

text \<open>copies\<close>

lemma GetIPCopy_facts:
  assumes "GetIPCopy r st = (r', st')"
  shows "keeps st st'" and "bytesValue st' r' = bytesValue st r"
    and "sliceBytes st' r' = sliceBytes st r"
    and "validBytes st' r'" and "freshFor st (reachBytes r')"
    and "ipnets st' = ipnets st" and "ptrArrays st' = ptrArrays st"
  using assms
  by (auto simp: GetIPCopy_def keeps_def keepsNets_def bytesValue_def sliceBytes_def
      validBytes_def freshFor_def reachBytes_def split: option.splits)

lemma GetMacCopy_facts:
  assumes "GetMacCopy r st = (r', st')"
  shows "keeps st st'" and "bytesValue st' r' = bytesValue st r"
    and "validBytes st' r'" and "freshFor st (reachBytes r')"
  using assms
  by (auto simp: GetMacCopy_def keeps_def keepsNets_def bytesValue_def
      validBytes_def freshFor_def reachBytes_def split: option.splits)

lemma GetIPNetCopy_facts:
  assumes "GetIPNetCopy p st = (p', st')"
  shows "keeps st st'" and "validNet st p \<Longrightarrow> ipnetValue st' p' = ipnetValue st p"
    and "validNet st' p'" and "freshFor st (reachNet st' p')"
    and "ptrArrays st' = ptrArrays st"
proof -
  have "keeps st st' \<and> (validNet st p \<longrightarrow> ipnetValue st' p' = ipnetValue st p) \<and>
     validNet st' p' \<and> freshFor st (reachNet st' p') \<and> ptrArrays st' = ptrArrays st"
  proof (cases p)
    case None
    with assms show ?thesis
      by (simp add: GetIPNetCopy_def ipnetValue_def validNet_def freshFor_def reachNet_def)
  next
    case (Some a)
    let ?n = "ipnets st ! a"
    obtain bm st1 where c1: "GetIPCopy (Mask_ref ?n) st = (bm, st1)" by (metis surj_pair)
    obtain ip st2 where c2: "GetIPCopy (IP_ref ?n) st1 = (ip, st2)" by (metis surj_pair)
    note F1 = GetIPCopy_facts [OF c1] and F2 = GetIPCopy_facts [OF c2]
    from assms Some c1 c2 have p': "p' = Some (length (ipnets st2))"
      and st': "st' = st2\<lparr>ipnets := ipnets st2 @ [\<lparr>IP_ref = ip, Mask_ref = bm\<rparr>]\<rparr>"
      by (simp_all add: GetIPNetCopy_def)
    have k12: "keeps st st2" using F1(1) F2(1) by (rule keeps_trans)
    have k2: "keeps st2 st'" unfolding st' by (simp add: keeps_def keepsNets_def)
    have kn1: "keepsNets st1 st2" using F2(1) by (simp add: keeps_def)
    have eqb: "byteArrays st' = byteArrays st2" by (simp add: st')
    have "validBytes st2 ip" "validBytes st2 bm"
      using F2(4) keepsNets_bytes(3) [OF kn1 F1(4)] by simp_all
    then have vb: "validBytes st' ip" "validBytes st' bm"
      by (simp_all add: validBytes_def eqb split: option.splits)
    have K: "keeps st st'" using k12 k2 by (rule keeps_trans)
    have V: "validNet st' p'"
      using vb unfolding p' st' by (simp add: validNet_def validBytes_def)
    have le: "length (byteArrays st) \<le> length (byteArrays st1)"
      using F1(1) by (simp add: keeps_def keepsNets_nth(3))
    have "freshFor st1 (reachBytes ip)" by (rule F2(5))
    then have "freshFor st (reachBytes ip)"
      using le by (auto simp: freshFor_def reachBytes_def split: option.splits)
    moreover have "freshFor st (reachBytes bm)" by (rule F1(5))
    moreover have "length (ipnets st2) = length (ipnets st)" using F1(6) F2(6) by simp
    moreover have "ipnets st' ! length (ipnets st2) = \<lparr>IP_ref = ip, Mask_ref = bm\<rparr>"
      by (simp add: st')
    ultimately have R: "freshFor st (reachNet st' p')"
      unfolding p' by (simp add: reachNet_def freshFor_def)
    have VAL: "ipnetValue st' p' = ipnetValue st p" if "validNet st p"
    proof -
      from that Some have vm: "validBytes st (Mask_ref ?n)" and vi: "validBytes st (IP_ref ?n)"
        by (simp_all add: validNet_def)
      have kn01: "keepsNets st st1" using F1(1) by (simp add: keeps_def)
      have "sliceBytes st' ip = sliceBytes st2 ip"
        unfolding st' by (simp add: sliceBytes_def split: option.splits)
      also have "\<dots> = sliceBytes st1 (IP_ref ?n)" by (rule F2(3))
      also have "\<dots> = sliceBytes st (IP_ref ?n)" by (rule keepsNets_bytes(2) [OF kn01 vi])
      finally have i: "sliceBytes st' ip = sliceBytes st (IP_ref ?n)" .
      have "sliceBytes st' bm = sliceBytes st2 bm"
        unfolding st' by (simp add: sliceBytes_def split: option.splits)
      also have "\<dots> = sliceBytes st1 bm" by (rule keepsNets_bytes(2) [OF kn1 F1(4)])
      also have "\<dots> = sliceBytes st (Mask_ref ?n)" by (rule F1(3))
      finally have m: "sliceBytes st' bm = sliceBytes st (Mask_ref ?n)" .
      have "ipnets st' ! length (ipnets st2) = \<lparr>IP_ref = ip, Mask_ref = bm\<rparr>"
        unfolding st' by simp
      with i m show ?thesis unfolding p' Some by (simp add: ipnetValue_def)
    qed
    have "ptrArrays st' = ptrArrays st" unfolding st' using F1(7) F2(7) by simp
    with K V R VAL show ?thesis by blast
  qed
  then show "keeps st st'" and "validNet st p \<Longrightarrow> ipnetValue st' p' = ipnetValue st p"
    and "validNet st' p'" and "freshFor st (reachNet st' p')"
    and "ptrArrays st' = ptrArrays st"
    by simp_all
qed


lemma freshFor_mono:
  assumes "freshFor st2 ls"
    and "length (byteArrays st) \<le> length (byteArrays st2)"
    and "length (ipnets st) \<le> length (ipnets st2)"
    and "length (ptrArrays st) \<le> length (ptrArrays st2)"
  shows "freshFor st ls"
proof -
  have "allocatedIn st l \<Longrightarrow> allocatedIn st2 l" for l
    using assms(2-4) by (cases l) simp_all
  with assms(1) show ?thesis by (auto simp: freshFor_def list_all_iff)
qed

lemma mutate_keeps:
  assumes "keeps st st'" and "\<not> allocatedIn st (target mu)"
  shows "keeps st (mutate mu st')"
  using assms by (cases mu) (simp_all add: keeps_def keepsNets_def)

lemma routesLoop_facts:
  assumes "a < length (ptrArrays st)" and "index + length elems \<le> length (ptrArrays st ! a)"
    and "list_all (validNet st) elems"
  shows "keepsNets st (routesLoop a index elems st) \<and>
    length (ptrArrays (routesLoop a index elems st)) = length (ptrArrays st) \<and>
    (\<forall>b. b \<noteq> a \<longrightarrow> ptrArrays (routesLoop a index elems st) ! b = ptrArrays st ! b) \<and>
    length (ptrArrays (routesLoop a index elems st) ! a) = length (ptrArrays st ! a) \<and>
    (\<forall>k. k < index \<or> index + length elems \<le> k \<longrightarrow>
        ptrArrays (routesLoop a index elems st) ! a ! k = ptrArrays st ! a ! k) \<and>
    (\<forall>k<length elems.
        validNet (routesLoop a index elems st) (ptrArrays (routesLoop a index elems st) ! a ! (index + k)) \<and>
        freshFor st (reachNet (routesLoop a index elems st)
                       (ptrArrays (routesLoop a index elems st) ! a ! (index + k))) \<and>
        ipnetValue (routesLoop a index elems st) (ptrArrays (routesLoop a index elems st) ! a ! (index + k)) =
          ipnetValue st (elems ! k))"
  using assms
proof (induction elems arbitrary: index st)
  case Nil
  then show ?case by simp
next
  case (Cons route rest)
  obtain c st1 where cp: "GetIPNetCopy route st = (c, st1)" by (metis surj_pair)
  note G = GetIPNetCopy_facts [OF cp]
  define st2 where "st2 = st1\<lparr>ptrArrays := (ptrArrays st1)[a := (ptrArrays st1 ! a)[index := c]]\<rparr>"
  define st' where "st' = routesLoop a (index + 1) rest st2"
  have loop: "routesLoop a index (route # rest) st = st'"
    by (simp add: cp st2_def st'_def)
  have kn01: "keepsNets st st1" using G(1) by (simp add: keeps_def)
  have kn12: "keepsNets st1 st2" by (simp add: st2_def keepsNets_def)
  have kn02: "keepsNets st st2" using kn01 kn12 by (rule keepsNets_trans)
  have pa: "ptrArrays st1 = ptrArrays st" by (rule G(5))
  have a2: "a < length (ptrArrays st2)" using Cons.prems(1) by (simp add: st2_def pa)
  have arr2: "ptrArrays st2 ! a = (ptrArrays st ! a)[index := c]"
    using Cons.prems(1) by (simp add: st2_def pa)
  have idx: "index < length (ptrArrays st ! a)" using Cons.prems(2) by simp
  have b2: "(index + 1) + length rest \<le> length (ptrArrays st2 ! a)"
    using Cons.prems(2) by (simp add: arr2)
  have vr: "list_all (validNet st) rest" and vroute: "validNet st route"
    using Cons.prems(3) by simp_all
  have v2: "list_all (validNet st2) rest"
    using vr keepsNets_net(2) [OF kn02] by (auto simp: list_all_iff)
  note IH = Cons.IH [OF a2 b2 v2, folded st'_def]
  from IH have kn2': "keepsNets st2 st'" by simp
  have K: "keepsNets st st'" using kn02 kn2' by (rule keepsNets_trans)
  have L: "length (ptrArrays st') = length (ptrArrays st)"
    using IH by (simp add: st2_def pa)
  have O: "ptrArrays st' ! b = ptrArrays st ! b" if "b \<noteq> a" for b
    using IH that by (simp add: st2_def pa)
  have LA: "length (ptrArrays st' ! a) = length (ptrArrays st ! a)"
    using IH by (simp add: arr2)
  have U: "ptrArrays st' ! a ! k = ptrArrays st ! a ! k"
    if "k < index \<or> index + length (route # rest) \<le> k" for k
  proof -
    from that have "k < index + 1 \<or> index + 1 + length rest \<le> k" by auto
    with IH have "ptrArrays st' ! a ! k = ptrArrays st2 ! a ! k" by blast
    also have "\<dots> = ptrArrays st ! a ! k" using that by (auto simp: arr2)
    finally show ?thesis .
  qed
  have lens: "length (byteArrays st) \<le> length (byteArrays st2)"
    "length (ipnets st) \<le> length (ipnets st2)" "length (ptrArrays st) \<le> length (ptrArrays st2)"
    using keepsNets_nth(3,4) [OF kn02] by (simp_all add: st2_def pa)
  have E: "validNet st' (ptrArrays st' ! a ! (index + k)) \<and>
        freshFor st (reachNet st' (ptrArrays st' ! a ! (index + k))) \<and>
        ipnetValue st' (ptrArrays st' ! a ! (index + k)) = ipnetValue st ((route # rest) ! k)"
    if "k < length (route # rest)" for k
  proof (cases k)
    case 0
    from IH have "ptrArrays st' ! a ! index = ptrArrays st2 ! a ! index" by simp
    then have e: "ptrArrays st' ! a ! index = c" using idx by (simp add: arr2)
    have kn1': "keepsNets st1 st'" using kn12 kn2' by (rule keepsNets_trans)
    note N = keepsNets_net [OF kn1' G(3)]
    from N(3) G(4) have "freshFor st (reachNet st' c)" by simp
    with N(1,2) G(2) [OF vroute] 0 e show ?thesis by simp
  next
    case (Suc j)
    with that have j: "j < length rest" by simp
    from IH j have f: "validNet st' (ptrArrays st' ! a ! (index + 1 + j))"
      "freshFor st2 (reachNet st' (ptrArrays st' ! a ! (index + 1 + j)))"
      "ipnetValue st' (ptrArrays st' ! a ! (index + 1 + j)) = ipnetValue st2 (rest ! j)"
      by blast+
    have "validNet st (rest ! j)" using vr j by (simp add: list_all_length)
    then have "ipnetValue st2 (rest ! j) = ipnetValue st (rest ! j)"
      by (rule keepsNets_net(1) [OF kn02])
    moreover have "freshFor st (reachNet st' (ptrArrays st' ! a ! (index + 1 + j)))"
      using f(2) lens by (rule freshFor_mono)
    ultimately show ?thesis using f Suc by simp
  qed
  from K L O LA U E show ?case unfolding loop by blast
qed


lemma Routes_ref_facts:
  assumes "Routes_ref m st = (r, st')" and "validPtrs st (routes_ref m)"
  shows "keeps st st'" and "ptrsValue st' r = ptrsValue st (routes_ref m)"
    and "freshFor st (reachPtrs st' r)"
proof -
  define elems where "elems = (case routes_ref m of None \<Rightarrow> [] | Some a \<Rightarrow> ptrArrays st ! a)"
  define a where "a = length (ptrArrays st)"
  define st1 where "st1 = st\<lparr>ptrArrays := ptrArrays st @ [replicate (length elems) None]\<rparr>"
  from assms(1) have r: "r = Some a" and st': "st' = routesLoop a 0 elems st1"
    by (simp_all add: Routes_ref_def Let_def elems_def a_def st1_def)
  have ve: "list_all (validNet st) elems"
    using assms(2) by (auto simp: elems_def validPtrs_def split: option.splits)
  have same: "byteArrays st1 = byteArrays st" "ipnets st1 = ipnets st"
    by (simp_all add: st1_def)
  have vn: "validNet st1 p = validNet st p" for p
    by (simp add: validNet_def validBytes_def same split: option.splits)
  have iv: "ipnetValue st1 p = ipnetValue st p" for p
    by (cases p) (simp_all add: ipnetValue_def sliceBytes_def same split: option.splits)
  have a1: "a < length (ptrArrays st1)" by (simp add: a_def st1_def)
  have arr: "ptrArrays st1 ! a = replicate (length elems) None" by (simp add: a_def st1_def)
  have b1: "0 + length elems \<le> length (ptrArrays st1 ! a)" by (simp add: arr)
  have v1: "list_all (validNet st1) elems" using ve by (simp add: list_all_iff vn)
  note F = routesLoop_facts [OF a1 b1 v1, folded st']
  from F have kn: "keepsNets st1 st'" by simp
  then have kn0: "keepsNets st st'" by (simp add: keepsNets_def same)
  from F have len: "length (ptrArrays st') = Suc (length (ptrArrays st))"
    by (simp add: st1_def)
  have old: "ptrArrays st' ! b = ptrArrays st ! b" if "b < length (ptrArrays st)" for b
  proof -
    from that have "b \<noteq> a" by (simp add: a_def)
    with F have "ptrArrays st' ! b = ptrArrays st1 ! b" by blast
    with that show ?thesis by (simp add: st1_def nth_append)
  qed
  have "take (length (ptrArrays st)) (ptrArrays st') = ptrArrays st"
    by (rule nth_equalityI) (simp_all add: len old)
  with kn0 show "keeps st st'" by (simp add: keeps_def)
  from F have la: "length (ptrArrays st' ! a) = length elems" by (simp add: arr)
  from F have el: "ipnetValue st' (ptrArrays st' ! a ! k) = ipnetValue st (elems ! k)"
    and fr: "freshFor st1 (reachNet st' (ptrArrays st' ! a ! k))"
    if "k < length elems" for k
    using that by (simp_all add: iv)
  have "map (ipnetValue st') (ptrArrays st' ! a) = map (ipnetValue st) elems"
    by (rule nth_equalityI) (simp_all add: la el)
  then show "ptrsValue st' r = ptrsValue st (routes_ref m)"
    unfolding r by (simp add: ptrsValue_def elems_def split: option.splits)
  have lens: "length (byteArrays st) \<le> length (byteArrays st1)"
    "length (ipnets st) \<le> length (ipnets st1)" "length (ptrArrays st) \<le> length (ptrArrays st1)"
    by (simp_all add: st1_def)
  have "freshFor st (reachNet st' q)" if "q \<in> set (ptrArrays st' ! a)" for q
  proof -
    from that obtain k where "k < length elems" "q = ptrArrays st' ! a ! k"
      by (auto simp: in_set_conv_nth la)
    with fr have "freshFor st1 (reachNet st' q)" by simp
    then show ?thesis using lens by (rule freshFor_mono)
  qed
  then show "freshFor st (reachPtrs st' r)"
    unfolding r by (auto simp: reachPtrs_def freshFor_def a_def list_all_iff)
qed

lemma fresh_mutation:
  assumes "keeps st st'" and "validIface st m" and "freshFor st ls" and "target mu \<in> set ls"
  shows "fromMemory (mutate mu st') m i = fromMemory st m i"
proof -
  from assms(3,4) have "\<not> allocatedIn st (target mu)"
    by (auto simp: freshFor_def list_all_iff)
  with assms(1) have "keeps st (mutate mu st')" by (rule mutate_keeps)
  then show ?thesis using assms(2) by (rule keeps_fromMemory)
qed


section \<open>C8: the copying accessors\<close>

text \<open>
  C8. For an entity whose references are valid, each of \<^verbatim>\<open>MacAddress\<close>, \<^verbatim>\<open>Address\<close>,
  \<^verbatim>\<open>AddressIPv6\<close> and \<^verbatim>\<open>Routes\<close> returns a reference that leads to what the field leads to
  (the value the accessor has in the earlier sections); the call leaves what the entity
  holds unchanged; and whatever is written through the returned reference, to any object
  it leads to, what the entity holds is still unchanged.
\<close>

theorem accessors_return_copies:
  assumes v: "validIface st m"
  shows
   "(case MacAddress_ref m st of
       (r, st') \<Rightarrow>
         bytesValue st' r = MacAddress (fromMemory st m i) \<and>
         fromMemory st' m i = fromMemory st m i \<and>
         (\<forall>mu. target mu \<in> set (reachBytes r) \<longrightarrow>
            fromMemory (mutate mu st') m i = fromMemory st m i)) \<and>
    (case Address_ref m st of
       (r, st') \<Rightarrow>
         ipnetValue st' r = Address (fromMemory st m i) \<and>
         fromMemory st' m i = fromMemory st m i \<and>
         (\<forall>mu. target mu \<in> set (reachNet st' r) \<longrightarrow>
            fromMemory (mutate mu st') m i = fromMemory st m i)) \<and>
    (case AddressIPv6_ref m st of
       (r, st') \<Rightarrow>
         ipnetValue st' r = AddressIPv6 (fromMemory st m i) \<and>
         fromMemory st' m i = fromMemory st m i \<and>
         (\<forall>mu. target mu \<in> set (reachNet st' r) \<longrightarrow>
            fromMemory (mutate mu st') m i = fromMemory st m i)) \<and>
    (case Routes_ref m st of
       (r, st') \<Rightarrow>
         ptrsValue st' r = Routes (fromMemory st m i) \<and>
         fromMemory st' m i = fromMemory st m i \<and>
         (\<forall>mu. target mu \<in> set (reachPtrs st' r) \<longrightarrow>
            fromMemory (mutate mu st') m i = fromMemory st m i))"
proof (intro conjI)
  from v have vm: "validBytes st (mac_ref m)" and va: "validNet st (address_ref m)"
    and va6: "validNet st (addressIPv6_ref m)" and vr: "validPtrs st (routes_ref m)"
    by (simp_all add: validIface_def)
  obtain r st' where c: "MacAddress_ref m st = (r, st')" by (metis surj_pair)
  note F = GetMacCopy_facts [OF c [unfolded MacAddress_ref_def]]
  show "case MacAddress_ref m st of
       (r, st') \<Rightarrow>
         bytesValue st' r = MacAddress (fromMemory st m i) \<and>
         fromMemory st' m i = fromMemory st m i \<and>
         (\<forall>mu. target mu \<in> set (reachBytes r) \<longrightarrow>
            fromMemory (mutate mu st') m i = fromMemory st m i)"
    unfolding c using F(2) keeps_fromMemory [OF F(1) v] fresh_mutation [OF F(1) v F(4)]
    by (simp add: MacAddress_def fromMemory_def)
next
  from v have va: "validNet st (address_ref m)" by (simp add: validIface_def)
  obtain r st' where c: "Address_ref m st = (r, st')" by (metis surj_pair)
  note F = GetIPNetCopy_facts [OF c [unfolded Address_ref_def]]
  show "case Address_ref m st of
       (r, st') \<Rightarrow>
         ipnetValue st' r = Address (fromMemory st m i) \<and>
         fromMemory st' m i = fromMemory st m i \<and>
         (\<forall>mu. target mu \<in> set (reachNet st' r) \<longrightarrow>
            fromMemory (mutate mu st') m i = fromMemory st m i)"
    unfolding c using F(2) [OF va] keeps_fromMemory [OF F(1) v] fresh_mutation [OF F(1) v F(4)]
    by (simp add: Address_def fromMemory_def)
next
  from v have va: "validNet st (addressIPv6_ref m)" by (simp add: validIface_def)
  obtain r st' where c: "AddressIPv6_ref m st = (r, st')" by (metis surj_pair)
  note F = GetIPNetCopy_facts [OF c [unfolded AddressIPv6_ref_def]]
  show "case AddressIPv6_ref m st of
       (r, st') \<Rightarrow>
         ipnetValue st' r = AddressIPv6 (fromMemory st m i) \<and>
         fromMemory st' m i = fromMemory st m i \<and>
         (\<forall>mu. target mu \<in> set (reachNet st' r) \<longrightarrow>
            fromMemory (mutate mu st') m i = fromMemory st m i)"
    unfolding c using F(2) [OF va] keeps_fromMemory [OF F(1) v] fresh_mutation [OF F(1) v F(4)]
    by (simp add: AddressIPv6_def fromMemory_def)
next
  from v have vr: "validPtrs st (routes_ref m)" by (simp add: validIface_def)
  obtain r st' where c: "Routes_ref m st = (r, st')" by (metis surj_pair)
  note F = Routes_ref_facts [OF c vr]
  show "case Routes_ref m st of
       (r, st') \<Rightarrow>
         ptrsValue st' r = Routes (fromMemory st m i) \<and>
         fromMemory st' m i = fromMemory st m i \<and>
         (\<forall>mu. target mu \<in> set (reachPtrs st' r) \<longrightarrow>
            fromMemory (mutate mu st') m i = fromMemory st m i)"
    unfolding c using F(2) keeps_fromMemory [OF F(1) v] fresh_mutation [OF F(1) v F(3)]
    by (simp add: Routes_def fromMemory_def)
qed

text \<open>On the example: \<^verbatim>\<open>MacAddress\<close> returns a new array with the stored bytes, and
  writing its first byte changes the copy and not the entity; \<^verbatim>\<open>Routes\<close> returns a new
  array, and clearing its first element leaves the routes of the entity.\<close>

theorem accessors_return_copies_witness:
  "validIface store_example refs_example \<and>
   fst (MacAddress_ref refs_example store_example) = Some 7 \<and>
   bytesValue (snd (MacAddress_ref refs_example store_example)) (Some 7) =
     Some [2, 66, 172, 17, 0, 2] \<and>
   bytesValue (mutate (SetByte 7 0 255) (snd (MacAddress_ref refs_example store_example))) (Some 7) =
     Some [255, 66, 172, 17, 0, 2] \<and>
   fromMemory (mutate (SetByte 7 0 255) (snd (MacAddress_ref refs_example store_example)))
       refs_example iface_bare =
     fromMemory store_example refs_example iface_bare \<and>
   fst (Routes_ref refs_example store_example) = Some 2 \<and>
   routes (fromMemory (mutate (SetPtr 2 0 None) (snd (Routes_ref refs_example store_example)))
             refs_example iface_bare) = [Some (net24 10 1 0 0)]"
proof -
  let ?M = "MacAddress_ref refs_example store_example"
  let ?R = "Routes_ref refs_example store_example"
  have v: "validIface store_example refs_example" by code_simp
  have m: "fst ?M = Some 7" and r: "fst ?R = Some 2" by code_simp+
  obtain stM where mM: "?M = (Some 7, stM)" using m by (metis prod.collapse)
  obtain stR where rR: "?R = (Some 2, stR)" using r by (metis prod.collapse)
  note T = accessors_return_copies [OF v, of iface_bare]
  have tm: "target (SetByte 7 0 255) \<in> set (reachBytes (Some 7))"
    by (simp add: reachBytes_def)
  have tr: "target (SetPtr 2 0 None) \<in> set (reachPtrs stR (Some 2))"
    by (simp add: reachPtrs_def)
  from T [THEN conjunct1] have "\<forall>mu. target mu \<in> set (reachBytes (Some 7)) \<longrightarrow>
      fromMemory (mutate mu stM) refs_example iface_bare =
      fromMemory store_example refs_example iface_bare"
    unfolding mM by simp
  with tm have "fromMemory (mutate (SetByte 7 0 255) stM) refs_example iface_bare =
     fromMemory store_example refs_example iface_bare"
    by blast
  with mM have 1: "fromMemory (mutate (SetByte 7 0 255) (snd ?M)) refs_example iface_bare =
     fromMemory store_example refs_example iface_bare"
    by (simp del: mutate.simps)
  from T [THEN conjunct2, THEN conjunct2, THEN conjunct2] have "\<forall>mu. target mu \<in> set (reachPtrs stR (Some 2)) \<longrightarrow>
      fromMemory (mutate mu stR) refs_example iface_bare =
      fromMemory store_example refs_example iface_bare"
    unfolding rR by simp
  with tr have "fromMemory (mutate (SetPtr 2 0 None) stR) refs_example iface_bare =
     fromMemory store_example refs_example iface_bare"
    by blast
  moreover have "routes (fromMemory store_example refs_example iface_bare) = [Some (net24 10 1 0 0)]"
    by code_simp
  ultimately have 2: "routes (fromMemory (mutate (SetPtr 2 0 None) (snd ?R)) refs_example iface_bare) =
      [Some (net24 10 1 0 0)]"
    using rR by (simp del: mutate.simps)
  have 3: "bytesValue (snd ?M) (Some 7) = Some [2, 66, 172, 17, 0, 2]" by code_simp
  have 4: "bytesValue (mutate (SetByte 7 0 255) (snd ?M)) (Some 7) = Some [255, 66, 172, 17, 0, 2]"
    by code_simp
  from v m r 1 2 3 4 show ?thesis by blast
qed


section \<open>C10: \<^verbatim>\<open>LinkLocalAddresses\<close> hands out the slice of the entity\<close>

text \<open>
  C10. \<^verbatim>\<open>LinkLocalAddresses\<close> returns the field \<^verbatim>\<open>llAddrs\<close> itself and allocates nothing:
  the result leads to the array of the entity and, through its elements, to the
  \<^verbatim>\<open>IPNet\<close> structures of the entity. So a write through the result changes what the
  entity holds: storing a pointer in element \<open>k\<close> of the result replaces the \<open>k\<close>-th
  link-local address of the entity, and assigning the address of the structure behind
  element \<open>k\<close> changes the address of the \<open>k\<close>-th link-local network of the entity.
\<close>

theorem link_local_addresses_shared:
  "LinkLocalAddresses_ref m st = (llAddrs_ref m, st) \<and>
   ptrsValue st (llAddrs_ref m) = LinkLocalAddresses (fromMemory st m i) \<and>
   (llAddrs_ref m = Some a \<and> a < length (ptrArrays st) \<and> k < length (ptrArrays st ! a) \<longrightarrow>
      target (SetPtr a k p) \<in> set (reachPtrs st (fst (LinkLocalAddresses_ref m st))) \<and>
      LinkLocalAddresses (fromMemory (mutate (SetPtr a k p) st) m i) =
        (LinkLocalAddresses (fromMemory st m i))[k := ipnetValue st p] \<and>
      (\<forall>n s. ptrArrays st ! a ! k = Some n \<and> n < length (ipnets st) \<longrightarrow>
         target (SetIP n s) \<in> set (reachPtrs st (fst (LinkLocalAddresses_ref m st))) \<and>
         LinkLocalAddresses (fromMemory (mutate (SetIP n s) st) m i) ! k =
           Some \<lparr>IP = sliceBytes st s, Mask = sliceBytes st (Mask_ref (ipnets st ! n))\<rparr>))"
proof (intro conjI impI allI)
  show "LinkLocalAddresses_ref m st = (llAddrs_ref m, st)"
    by (simp add: LinkLocalAddresses_ref_def)
  show "ptrsValue st (llAddrs_ref m) = LinkLocalAddresses (fromMemory st m i)"
    by (simp add: LinkLocalAddresses_def fromMemory_def)
next
  assume a: "llAddrs_ref m = Some a \<and> a < length (ptrArrays st) \<and> k < length (ptrArrays st ! a)"
  then show "target (SetPtr a k p) \<in> set (reachPtrs st (fst (LinkLocalAddresses_ref m st)))"
    by (simp add: LinkLocalAddresses_ref_def reachPtrs_def)
  have "ipnetValue (mutate (SetPtr a k p) st) q = ipnetValue st q" for q
    by (cases q) (simp_all add: ipnetValue_def sliceBytes_def split: option.splits)
  then have "ipnetValue (mutate (SetPtr a k p) st) = ipnetValue st"
    by (rule ext)
  moreover from a have "ptrArrays (mutate (SetPtr a k p) st) ! a = (ptrArrays st ! a)[k := p]"
    by simp
  ultimately show "LinkLocalAddresses (fromMemory (mutate (SetPtr a k p) st) m i) =
        (LinkLocalAddresses (fromMemory st m i))[k := ipnetValue st p]"
    using a
    by (simp add: LinkLocalAddresses_def fromMemory_def ptrsValue_def map_update
        del: mutate.simps)
next
  fix n s
  assume a: "llAddrs_ref m = Some a \<and> a < length (ptrArrays st) \<and> k < length (ptrArrays st ! a)"
    and n: "ptrArrays st ! a ! k = Some n \<and> n < length (ipnets st)"
  from a n have "Some n \<in> set (ptrArrays st ! a)"
    by (metis nth_mem)
  then have "NetLoc n \<in> set (concat (map (reachNet st) (ptrArrays st ! a)))"
    by (auto simp: reachNet_def intro!: bexI [of _ "Some n"])
  with a show "target (SetIP n s) \<in> set (reachPtrs st (fst (LinkLocalAddresses_ref m st)))"
    by (simp add: LinkLocalAddresses_ref_def reachPtrs_def)
  have "ipnetValue (mutate (SetIP n s) st) (Some n) =
      Some \<lparr>IP = sliceBytes st s, Mask = sliceBytes st (Mask_ref (ipnets st ! n))\<rparr>"
    using n by (simp add: ipnetValue_def sliceBytes_def split: option.splits)
  with a n show "LinkLocalAddresses (fromMemory (mutate (SetIP n s) st) m i) ! k =
           Some \<lparr>IP = sliceBytes st s, Mask = sliceBytes st (Mask_ref (ipnets st ! n))\<rparr>"
    by (simp add: LinkLocalAddresses_def fromMemory_def ptrsValue_def del: mutate.simps)
       simp
qed

text \<open>On the example the result is the reference 0 of the field, in the same store.
  Clearing element 0 of the result clears the link-local address of the entity, and
  setting the address of the structure behind it to \<^verbatim>\<open>nil\<close> empties the address the
  entity holds.\<close>

theorem link_local_addresses_shared_witness:
  "LinkLocalAddresses_ref refs_example store_example = (Some 0, store_example) \<and>
   llAddrs (fromMemory store_example refs_example iface_bare) =
     [Some \<lparr>IP = [169, 254, 0, 2], Mask = [255, 255, 0, 0]\<rparr>] \<and>
   llAddrs (fromMemory (mutate (SetPtr 0 0 None) store_example) refs_example iface_bare) = [None] \<and>
   llAddrs (fromMemory (mutate (SetIP 1 None) store_example) refs_example iface_bare) ! 0 =
     Some \<lparr>IP = [], Mask = [255, 255, 0, 0]\<rparr>"
proof -
  have f: "llAddrs_ref refs_example = Some 0 \<and> 0 < length (ptrArrays store_example) \<and>
      (0::nat) < length (ptrArrays store_example ! 0)"
    "ptrArrays store_example ! 0 ! 0 = Some 1 \<and> 1 < length (ipnets store_example)"
    by (simp_all add: refs_example_def store_example_def)
  note T = link_local_addresses_shared
    [where m = refs_example and st = store_example and i = iface_bare and a = 0 and k = 0]
  from T have 1: "LinkLocalAddresses_ref refs_example store_example = (Some 0, store_example)"
    by (simp add: refs_example_def)
  have 2: "llAddrs (fromMemory store_example refs_example iface_bare) =
     [Some \<lparr>IP = [169, 254, 0, 2], Mask = [255, 255, 0, 0]\<rparr>]"
    by code_simp
  from T [of None, THEN conjunct2, THEN conjunct2, rule_format, OF f(1)] 2
  have 3: "llAddrs (fromMemory (mutate (SetPtr 0 0 None) store_example) refs_example iface_bare) = [None]"
    by (simp add: LinkLocalAddresses_def ipnetValue_def del: mutate.simps)
  from T [of None, THEN conjunct2, THEN conjunct2, rule_format, OF f(1), THEN conjunct2,
      THEN conjunct2, rule_format, OF f(2), of None]
  have 4: "llAddrs (fromMemory (mutate (SetIP 1 None) store_example) refs_example iface_bare) ! 0 =
     Some \<lparr>IP = [], Mask = [255, 255, 0, 0]\<rparr>"
    by (simp add: LinkLocalAddresses_def sliceBytes_def store_example_def del: mutate.simps)
  from 1 2 3 4 show ?thesis by blast
qed


end
